theory Spec2Isabelle
  imports Complex_Main "HOL-Library.Sublist" "HOL-Library.Log_Nat"
begin

section \<open>JavaScript objects and errors\<close>

text \<open>
  The library under study is bilby.js (\<^verbatim>\<open>src/node_modules/lti/node_modules/bilby/bilby.js\<close>).
  A thrown exception is a value of \<open>js_error\<close>; a function that may throw returns
  \<open>js_error + 'a\<close> with \<open>Inl\<close> for the exception.  Each constructor carries
  the message; for the errors that the runtime itself raises (calling \<^verbatim>\<open>undefined\<close>,
  reading a member of \<^verbatim>\<open>undefined\<close>, naming an undeclared variable) the wording
  differs between engines and only the kind matters.

  An object literal is an association list with distinct keys, in the order in which
  \<^verbatim>\<open>for(i in o)\<close> enumerates them (insertion order; keys that look like array indices,
  which JavaScript enumerates first, and the key \<^verbatim>\<open>__proto__\<close>, whose assignment
  changes the prototype, are not used as keys).  A read \<^verbatim>\<open>o[k]\<close> also finds the
  members that every object inherits from \<^verbatim>\<open>Object.prototype\<close>; they are functions
  (or, for \<^verbatim>\<open>__proto__\<close>, an object), hence truthy.
\<close>

datatype js_error = Error string | TypeError string | ReferenceError string

type_synonym 'v object = "(string \<times> 'v) list"

definition objectPrototypeNames :: "string list" where
  "objectPrototypeNames =
     [''constructor'', ''toString'', ''toLocaleString'', ''valueOf'', ''hasOwnProperty'',
      ''isPrototypeOf'', ''propertyIsEnumerable'', ''__defineGetter__'', ''__defineSetter__'',
      ''__lookupGetter__'', ''__lookupSetter__'', ''__proto__'']"

text \<open>The three outcomes of a read \<^verbatim>\<open>o[k]\<close>.\<close>

datatype 'v slot = Own 'v | Inherited string | Absent

definition js_get :: "'v object \<Rightarrow> string \<Rightarrow> 'v slot" where
  "js_get o' k =
     (case map_of o' k of
        Some v \<Rightarrow> Own v
      | None \<Rightarrow> if k \<in> set objectPrototypeNames then Inherited k else Absent)"

text \<open>\<^verbatim>\<open>o[k] = v\<close> on an object under construction: an existing key keeps its place.\<close>

fun js_set :: "'v object \<Rightarrow> string \<Rightarrow> 'v \<Rightarrow> 'v object" where
  "js_set [] k v = [(k, v)]"
| "js_set ((k', v') # rest) k v =
     (if k' = k then (k, v) # rest else (k', v') # js_set rest k v)"

text \<open>\<^verbatim>\<open>singleton(k, v)\<close>: \<^verbatim>\<open>var o = {}; o[k] = v; return o\<close>.\<close>

definition singleton :: "string \<Rightarrow> 'v \<Rightarrow> 'v object" where
  "singleton k v = js_set [] k v"

text \<open>
  \<^verbatim>\<open>extend(a, b)\<close>: copies the entries of \<open>a\<close>, then those of \<open>b\<close>, into a fresh
  object; neither argument is written to.
\<close>

definition copyInto :: "'v object \<Rightarrow> 'v object \<Rightarrow> 'v object" where
  "copyInto acc src = foldl (\<lambda>o' (i, v). js_set o' i v) acc src"

definition extend :: "'v object \<Rightarrow> 'v object \<Rightarrow> 'v object" where
  "extend a b = copyInto (copyInto [] a) b"

section \<open>Lenses\<close>

text \<open>
  \<^verbatim>\<open>store(setter, getter)\<close> and \<^verbatim>\<open>lens(f)\<close> with \<^verbatim>\<open>run(x) = f(x)\<close>.  The part a
  lens over a key focuses on is whatever the read \<^verbatim>\<open>o[k]\<close> returns: \<^verbatim>\<open>undefined\<close>
  for a missing key, a member of \<^verbatim>\<open>Object.prototype\<close> for an inherited one, or a
  stored value.  Objects in this section therefore hold values of type \<open>'v part\<close>.
\<close>

datatype 'v part = Undefined | Proto string | Value 'v

datatype ('p, 'w) store = Store (setter: "'p \<Rightarrow> 'w") (getter: 'p)

datatype ('w, 'p) lens = Lens (run: "'w \<Rightarrow> ('p, 'w) store")

definition js_read :: "'v part object \<Rightarrow> string \<Rightarrow> 'v part" where
  "js_read o' k =
     (case js_get o' k of Own v \<Rightarrow> v | Inherited n \<Rightarrow> Proto n | Absent \<Rightarrow> Undefined)"

definition objectLens :: "string \<Rightarrow> ('v part object, 'v part) lens" where
  "objectLens k =
     Lens (\<lambda>o'. Store (\<lambda>v. extend o' (singleton k v)) (js_read o' k))"

section \<open>Environments and multimethod dispatch\<close>

text \<open>
  After construction the source never assigns into an environment, into its
  \<^verbatim>\<open>methods\<close> and \<^verbatim>\<open>properties\<close> objects or into a registration list: \<^verbatim>\<open>extend\<close> and
  \<^verbatim>\<open>concat\<close> build new objects and arrays.  Environments are therefore plain values
  here, and an operation returns the new environment.

  A registration is \<^verbatim>\<open>{predicate: predicate, f: f}\<close>.  Predicates are pure boolean
  functions of the argument list; an implementation receives \<^verbatim>\<open>this\<close> and the
  argument list and may throw.  \<open>declared\<close> is the implementation's declared parameter
  count (\<^verbatim>\<open>f.length\<close>).  An entry of a registration list is \<open>Some\<close> registration, or
  \<open>None\<close> for an element that is not a registration (\<^verbatim>\<open>concat\<close> in \<^verbatim>\<open>envConcat\<close>
  appends \<^verbatim>\<open>undefined\<close> when the extra side lacks the name).
\<close>

datatype ('t, 'a, 'r) registration =
  Registration (predicate: "'a list \<Rightarrow> bool") (f: "'t \<Rightarrow> 'a list \<Rightarrow> js_error + 'r")
    (declared: nat)

type_synonym ('t, 'a, 'r) registrations = "('t, 'a, 'r) registration option list"

definition notImplemented :: js_error where
  "notImplemented = Error ''Method not implemented for this input''"

fun findRegistered ::
  "('t, 'a, 'r) registrations \<Rightarrow> 'a list \<Rightarrow> js_error + ('t \<Rightarrow> 'a list \<Rightarrow> js_error + 'r)" where
  "findRegistered [] args = Inl notImplemented"
| "findRegistered (None # rest) args =
     Inl (TypeError ''Cannot read property predicate of undefined'')"
| "findRegistered (Some r # rest) args =
     (if predicate r args then Inr (f r) else findRegistered rest args)"

definition makeMethod :: "('t, 'a, 'r) registrations \<Rightarrow> 't \<Rightarrow> 'a list \<Rightarrow> js_error + 'r" where
  "makeMethod regs this args =
     (case findRegistered regs args of Inl e \<Rightarrow> Inl e | Inr g \<Rightarrow> g this args)"

datatype ('t, 'a, 'r, 'p) env =
  Env (methods: "('t, 'a, 'r) registrations object") (properties: "'p object")

definition ownMembers :: "string list" where
  "ownMembers = [''method'', ''property'', ''envConcat'', ''envAppend'']"

text \<open>
  \<^verbatim>\<open>this[i]\<close> is truthy in the constructor's first loop when \<open>i\<close> names one of the four
  members set just before or an inherited member.
\<close>

definition taken :: "string \<Rightarrow> bool" where
  "taken i \<longleftrightarrow> i \<in> set ownMembers \<or> i \<in> set objectPrototypeNames"

definition environment ::
  "('t, 'a, 'r) registrations object \<Rightarrow> 'p object \<Rightarrow> js_error + ('t, 'a, 'r, 'p) env" where
  "environment ms ps =
     (case find taken (map fst ms) of
        Some i \<Rightarrow> Inl (Error (''Method '' @ i @ '' already in environment.''))
      | None \<Rightarrow>
         (case find (\<lambda>i. taken i \<or> i \<in> set (map fst ms)) (map fst ps) of
            Some i \<Rightarrow> Inl (Error (''Property '' @ i @ '' already in environment.''))
          | None \<Rightarrow> Inr (Env ms ps)))"

text \<open>
  The member \<^verbatim>\<open>method(name, predicate, f)\<close> of an environment, fully applied (the
  name \<open>method\<close> is reserved in Isabelle).  \<^verbatim>\<open>methods[name] || []\<close> finds an
  inherited member for a name of \<^verbatim>\<open>Object.prototype\<close>; that member has no
  \<^verbatim>\<open>concat\<close>, so the call throws a TypeError.
\<close>

definition env_method ::
  "('t, 'a, 'r, 'p) env \<Rightarrow> string \<Rightarrow> ('t, 'a, 'r) registration \<Rightarrow> js_error + ('t, 'a, 'r, 'p) env" where
  "env_method e name r =
     (case js_get (methods e) name of
        Inherited n \<Rightarrow> Inl (TypeError ''undefined is not a function'')
      | Own regs \<Rightarrow>
          environment (extend (methods e) (singleton name (regs @ [Some r]))) (properties e)
      | Absent \<Rightarrow>
          environment (extend (methods e) (singleton name ([] @ [Some r]))) (properties e))"

definition property ::
  "('t, 'a, 'r, 'p) env \<Rightarrow> string \<Rightarrow> 'p \<Rightarrow> js_error + ('t, 'a, 'r, 'p) env" where
  "property e name v = environment (methods e) (extend (properties e) (singleton name v))"

text \<open>
  \<^verbatim>\<open>envConcat(extraMethods, extraProperties)\<close>.  First loop: for each own name \<open>i\<close>,
  \<^verbatim>\<open>methods[i].concat(extraMethods[i])\<close>; \<^verbatim>\<open>concat\<close> appends the elements of an array
  and appends any other value (here \<^verbatim>\<open>undefined\<close> or an inherited member) as one
  element.  Second loop: the extra names not yet \<^verbatim>\<open>in newMethods\<close> (the \<^verbatim>\<open>in\<close>
  operator also sees inherited names).
\<close>

definition concatExtra ::
  "('t, 'a, 'r) registrations \<Rightarrow> ('t, 'a, 'r) registrations slot \<Rightarrow> ('t, 'a, 'r) registrations" where
  "concatExtra regs x = (case x of Own extra \<Rightarrow> regs @ extra | Inherited n \<Rightarrow> regs @ [None] | Absent \<Rightarrow> regs @ [None])"

definition js_in :: "string \<Rightarrow> 'v object \<Rightarrow> bool" where
  "js_in i o' \<longleftrightarrow> js_get o' i \<noteq> Absent"

definition envConcat ::
  "('t, 'a, 'r, 'p) env \<Rightarrow> ('t, 'a, 'r) registrations object \<Rightarrow> 'p object
     \<Rightarrow> js_error + ('t, 'a, 'r, 'p) env" where
  "envConcat e extraMethods extraProperties =
     (let newMethods1 =
            foldl (\<lambda>nm (i, regs). js_set nm i (concatExtra regs (js_get extraMethods i)))
              [] (methods e);
          newMethods =
            foldl (\<lambda>nm (i, regs). if js_in i nm then nm else js_set nm i regs)
              newMethods1 extraMethods
      in environment newMethods (extend (properties e) extraProperties))"

definition envAppend ::
  "('t, 'a, 'r, 'p) env \<Rightarrow> ('t, 'a, 'r, 'p) env \<Rightarrow> js_error + ('t, 'a, 'r, 'p) env" where
  "envAppend receiver e = envConcat e (methods receiver) (properties receiver)"

text \<open>
  What \<^verbatim>\<open>e[n]\<close> is on a constructed environment: the constructor sets the four
  members, then \<^verbatim>\<open>this[i] = makeMethod(methods[i])\<close> for each method and
  \<^verbatim>\<open>this[i] = properties[i]\<close> for each property.
\<close>

datatype ('m, 'p) member = BuiltIn string | Multimethod 'm | PropertyValue 'p | NoMember

definition resolve :: "('t, 'a, 'r, 'p) env \<Rightarrow> string \<Rightarrow> (('t, 'a, 'r) registrations, 'p) member" where
  "resolve e n =
     (if n \<in> set ownMembers then BuiltIn n
      else case map_of (methods e) n of
        Some regs \<Rightarrow> Multimethod regs
      | None \<Rightarrow>
         (case map_of (properties e) n of
            Some v \<Rightarrow> PropertyValue v
          | None \<Rightarrow> if n \<in> set objectPrototypeNames then BuiltIn n else NoMember))"

text \<open>
  The call \<^verbatim>\<open>e.n(args...)\<close> with \<open>this\<close> standing for the receiver.  Calling a member
  that is missing throws the runtime's TypeError; calling a property value or a
  built-in member is not a multimethod call and has no result here (\<open>None\<close>).
\<close>

definition callMember ::
  "'t \<Rightarrow> ('t, 'a, 'r, 'p) env \<Rightarrow> string \<Rightarrow> 'a list \<Rightarrow> (js_error + 'r) option" where
  "callMember this e n args =
     (case resolve e n of
        Multimethod regs \<Rightarrow> Some (makeMethod regs this args)
      | NoMember \<Rightarrow> Some (Inl (TypeError ''undefined is not a function''))
      | BuiltIn b \<Rightarrow> None
      | PropertyValue v \<Rightarrow> None)"

section \<open>Tagged records and tagged sums\<close>

text \<open>
  \<^verbatim>\<open>tagged(name, fields)\<close> builds a constructor that stores its arguments under the
  field names; \<^verbatim>\<open>taggedSum(constructors)\<close> builds one such constructor per variant and
  gives each prototype \<^verbatim>\<open>cata = makeCata(constructors[key], key)\<close>.  An instance
  remembers the field list and the variant name its prototype's \<^verbatim>\<open>cata\<close> closes over.
\<close>

datatype 'v tagged_value =
  Instance (variant: string) (fieldNames: "string list") (members: "'v object")

fun showDigit :: "nat \<Rightarrow> char" where
  "showDigit n = char_of (48 + n)"

function showNat :: "nat \<Rightarrow> string" where
  "showNat n = (if n < 10 then [showDigit n] else showNat (n div 10) @ [showDigit (n mod 10)])"
  by pat_completeness auto
termination
  by (relation "measure id") auto

declare showNat.simps [simp del]

definition tagged :: "string \<Rightarrow> string list \<Rightarrow> 'v list \<Rightarrow> js_error + 'v tagged_value" where
  "tagged name fields arguments =
     (if length arguments \<noteq> length fields
      then Inl (TypeError (''Expected '' @ showNat (length fields) @ '' arguments, got ''
                            @ showNat (length arguments)))
      else Inr (Instance name fields (copyInto [] (zip fields arguments))))"

definition taggedSum :: "string list object \<Rightarrow> ('v list \<Rightarrow> js_error + 'v tagged_value) object" where
  "taggedSum constructors =
     copyInto [] (map (\<lambda>(key, fields). (key, tagged key fields)) constructors)"

text \<open>
  The two checking loops of \<^verbatim>\<open>makeCata\<close>.  Handlers are functions, so an own entry
  of the dispatch table is truthy; a field list is an array, so an own entry of
  \<^verbatim>\<open>constructors\<close> is truthy; an inherited member is truthy on either side.
\<close>

fun checkSupplied :: "string list \<Rightarrow> 'h object \<Rightarrow> js_error option" where
  "checkSupplied [] dispatches = None"
| "checkSupplied (key # keys) dispatches =
     (case js_get dispatches key of
        Absent \<Rightarrow> Some (TypeError (''Constructors define '' @ key @ '' but not supplied to cata''))
      | _ \<Rightarrow> checkSupplied keys dispatches)"

fun checkExtra :: "string list \<Rightarrow> string list object \<Rightarrow> js_error option" where
  "checkExtra [] constructors = None"
| "checkExtra (key # keys) constructors =
     (case js_get constructors key of
        Absent \<Rightarrow> Some (TypeError (''Found extra constructor supplied to cata: '' @ key))
      | _ \<Rightarrow> checkExtra keys constructors)"

text \<open>
  \<^verbatim>\<open>makeCata(fields, field)\<close> called on \<open>this\<close> with the table \<open>dispatches\<close>.  The
  arguments are the reads \<^verbatim>\<open>this[fields[i]]\<close>.  \<open>inherited\<close> is what a member of
  \<^verbatim>\<open>Object.prototype\<close> does when the table entry for the variant is an inherited one.
\<close>

definition makeCata ::
  "(string \<Rightarrow> 'v tagged_value \<Rightarrow> 'v slot list \<Rightarrow> js_error + 'r) \<Rightarrow> string list object
     \<Rightarrow> string list \<Rightarrow> string \<Rightarrow> 'v tagged_value
     \<Rightarrow> ('v tagged_value \<Rightarrow> 'v slot list \<Rightarrow> js_error + 'r) object \<Rightarrow> js_error + 'r" where
  "makeCata inherited constructors fields field this dispatches =
     (case checkSupplied (map fst constructors) dispatches of
        Some e \<Rightarrow> Inl e
      | None \<Rightarrow>
         (case checkExtra (map fst dispatches) constructors of
            Some e \<Rightarrow> Inl e
          | None \<Rightarrow>
             (let args = map (\<lambda>fld. js_get (members this) fld) fields
              in case js_get dispatches field of
                   Own h \<Rightarrow> h this args
                 | Inherited n \<Rightarrow> inherited n this args
                 | Absent \<Rightarrow> Inl (TypeError ''Cannot read property apply of undefined''))))"

definition cata ::
  "(string \<Rightarrow> 'v tagged_value \<Rightarrow> 'v slot list \<Rightarrow> js_error + 'r) \<Rightarrow> string list object
     \<Rightarrow> 'v tagged_value \<Rightarrow> ('v tagged_value \<Rightarrow> 'v slot list \<Rightarrow> js_error + 'r) object
     \<Rightarrow> js_error + 'r" where
  "cata inherited constructors v dispatches =
     makeCata inherited constructors (fieldNames v) (variant v) v dispatches"

section \<open>The values the library's own registrations dispatch on\<close>

subsection \<open>Numbers\<close>

text \<open>
  A JavaScript number is an IEEE 754 double: a finite value, one of the two
  infinities, or \<^verbatim>\<open>NaN\<close>.  \<open>Finite r\<close> is the double whose exact value is the rational
  \<open>r\<close>; the doubles are the \<open>r\<close> with \<open>isDouble r\<close> below.  The two zeros are one value
  here: the functions embedded below only test them for truthiness and sign, where
  \<^verbatim>\<open>-0\<close> and \<^verbatim>\<open>0\<close> agree.
\<close>

datatype number = Finite rat | PosInf | NegInf | NotANumber

text \<open>
  Rounding to the nearest double, ties to even.  \<open>ilog2 a\<close> is the exponent \<open>e\<close> with
  \<open>2 powi e \<le> a < 2 powi (e + 1)\<close> for a positive \<open>a\<close>; \<open>ulp v\<close> is the spacing of the
  doubles around \<open>v\<close> (52 fraction bits, least normal exponent \<open>-1022\<close>); a result of
  magnitude \<open>2 powi 1024\<close> or more overflows to an infinity.
\<close>

definition ilog2 :: "rat \<Rightarrow> int" where
  "ilog2 a = (if 1 \<le> a then bitlen \<lfloor>a\<rfloor> - 1 else - bitlen (\<lceil>1 / a\<rceil> - 1))"

definition ulp :: "rat \<Rightarrow> rat" where
  "ulp v = 2 powi (max (ilog2 \<bar>v\<bar>) (- 1022) - 52)"

definition roundHalfEven :: "rat \<Rightarrow> int" where
  "roundHalfEven q =
     (let fl = \<lfloor>q\<rfloor>; d = q - of_int fl
      in if d < 1 / 2 then fl else if 1 / 2 < d then fl + 1 else if even fl then fl else fl + 1)"

definition roundDouble :: "rat \<Rightarrow> number" where
  "roundDouble v =
     (if v = 0 then Finite 0
      else let r = of_int (roundHalfEven (v / ulp v)) * ulp v
           in if 2 powi 1024 \<le> \<bar>r\<bar> then (if v < 0 then NegInf else PosInf) else Finite r)"

definition isDouble :: "rat \<Rightarrow> bool" where
  "isDouble v \<longleftrightarrow> roundDouble v = Finite v"

text \<open>
  The operators the embedded code applies to numbers: \<^verbatim>\<open>x < 0\<close>, unary \<^verbatim>\<open>-x\<close>,
  \<^verbatim>\<open>x / 2\<close>, \<^verbatim>\<open>x < 0 ? Math.ceil(x) : Math.floor(x)\<close>, truthiness, and \<^verbatim>\<open>n - x\<close>.
  Negation, \<^verbatim>\<open>Math.ceil\<close> and \<^verbatim>\<open>Math.floor\<close> are exact on doubles; division and
  subtraction round.
\<close>

fun numNegative :: "number \<Rightarrow> bool" where
  "numNegative (Finite r) = (r < 0)"
| "numNegative NegInf = True"
| "numNegative PosInf = False"
| "numNegative NotANumber = False"

fun numNegate :: "number \<Rightarrow> number" where
  "numNegate (Finite r) = Finite (- r)"
| "numNegate PosInf = NegInf"
| "numNegate NegInf = PosInf"
| "numNegate NotANumber = NotANumber"

fun numHalve :: "number \<Rightarrow> number" where
  "numHalve (Finite r) = roundDouble (r / 2)"
| "numHalve x = x"

fun numTrunc :: "number \<Rightarrow> number" where
  "numTrunc (Finite r) = Finite (of_int (if r < 0 then \<lceil>r\<rceil> else \<lfloor>r\<rfloor>))"
| "numTrunc x = x"

fun numTruthy :: "number \<Rightarrow> bool" where
  "numTruthy (Finite r) = (r \<noteq> 0)"
| "numTruthy PosInf = True"
| "numTruthy NegInf = True"
| "numTruthy NotANumber = False"

fun numSubtract :: "number \<Rightarrow> number \<Rightarrow> number" where
  "numSubtract (Finite a) (Finite b) = roundDouble (a - b)"
| "numSubtract NotANumber y = NotANumber"
| "numSubtract x NotANumber = NotANumber"
| "numSubtract PosInf PosInf = NotANumber"
| "numSubtract NegInf NegInf = NotANumber"
| "numSubtract PosInf y = PosInf"
| "numSubtract NegInf y = NegInf"
| "numSubtract (Finite a) PosInf = NegInf"
| "numSubtract (Finite a) NegInf = PosInf"

subsection \<open>Values\<close>

text \<open>
  \<open>Num r\<close> abbreviates the finite number of value \<open>r\<close>.  \<open>Fun k n\<close> is a caller's function with identity
  \<open>k\<close> and declared parameter count \<open>n\<close>; \<open>ShrinkBooleanFn\<close> is the function that the
  boolean registration of \<^verbatim>\<open>shrink\<close> returns.  \<open>OptSome\<close>/\<open>OptNone\<close> are \<^verbatim>\<open>some(x)\<close> and
  the single object \<^verbatim>\<open>none\<close>, \<open>ELeft\<close>/\<open>ERight\<close> are \<^verbatim>\<open>left(x)\<close>/\<^verbatim>\<open>right(x)\<close>,
  \<open>Success\<close>/\<open>Failure\<close> are the two variants of \<^verbatim>\<open>Validation\<close>.  Stores, lenses and
  \<^verbatim>\<open>io\<close> actions are not values here.
\<close>

datatype val =
    Undef | Null | Bool bool | Number number | Str string | Arr "val list"
  | Fun nat nat | ShrinkBooleanFn
  | OptSome val | OptNone | ELeft val | ERight val | Success val | Failure val

abbreviation Num :: "rat \<Rightarrow> val" where
  "Num r \<equiv> Number (Finite r)"

text \<open>
  \<^verbatim>\<open>this\<close> inside an implementation: the exported environment when the method is
  called on it, \<^verbatim>\<open>undefined\<close> when the method was taken off the environment first
  (as in \<^verbatim>\<open>vf.ap(v, this.append)\<close>).
\<close>

datatype this = ThisUndefined | ThisBilby

type_synonym impl = "this \<Rightarrow> val list \<Rightarrow> js_error + val"

definition arg :: "val list \<Rightarrow> nat \<Rightarrow> val" where
  "arg args i = (if i < length args then args ! i else Undef)"

fun truthy :: "val \<Rightarrow> bool" where
  "truthy Undef = False"
| "truthy Null = False"
| "truthy (Bool b) = b"
| "truthy (Number n) = numTruthy n"
| "truthy (Str s) = (s \<noteq> [])"
| "truthy _ = True"

subsection \<open>Predicates\<close>

text \<open>
  Each is applied as \<^verbatim>\<open>predicate.apply(this, args)\<close> and looks at the first argument.
  The predicates made by \<^verbatim>\<open>isTypeOf(s)\<close> and \<^verbatim>\<open>isInstanceOf(c)\<close> are curried functions
  still awaiting one argument: applied to no argument at all they return a function,
  which is truthy.
\<close>

definition isFunction :: "val list \<Rightarrow> bool" where
  "isFunction args \<longleftrightarrow>
     args = [] \<or> (case arg args 0 of Fun k n \<Rightarrow> True | ShrinkBooleanFn \<Rightarrow> True | _ \<Rightarrow> False)"

definition isBoolean :: "val list \<Rightarrow> bool" where
  "isBoolean args \<longleftrightarrow> args = [] \<or> (case arg args 0 of Bool b \<Rightarrow> True | _ \<Rightarrow> False)"

definition isNumber :: "val list \<Rightarrow> bool" where
  "isNumber args \<longleftrightarrow> args = [] \<or> (case arg args 0 of Number n \<Rightarrow> True | _ \<Rightarrow> False)"

definition isString :: "val list \<Rightarrow> bool" where
  "isString args \<longleftrightarrow> args = [] \<or> (case arg args 0 of Str s \<Rightarrow> True | _ \<Rightarrow> False)"

definition isArray :: "val list \<Rightarrow> bool" where
  "isArray args = (case arg args 0 of Arr xs \<Rightarrow> True | _ \<Rightarrow> False)"

text \<open>
  \<^verbatim>\<open>liftA2(or, isNumber, isString)\<close> is \<^verbatim>\<open>function(x) { return a(x)(b(x)); }\<close>: it hands
  its first parameter on as one argument, also when it was called with none.
\<close>

definition isNumberOrString :: "val list \<Rightarrow> bool" where
  "isNumberOrString args \<longleftrightarrow> isNumber [arg args 0] \<or> isString [arg args 0]"

definition isOption :: "val list \<Rightarrow> bool" where
  "isOption args = (case arg args 0 of OptSome x \<Rightarrow> True | OptNone \<Rightarrow> True | _ \<Rightarrow> False)"

definition isEither :: "val list \<Rightarrow> bool" where
  "isEither args = (case arg args 0 of ELeft x \<Rightarrow> True | ERight x \<Rightarrow> True | _ \<Rightarrow> False)"

definition isValidation :: "val list \<Rightarrow> bool" where
  "isValidation args = (case arg args 0 of Success x \<Rightarrow> True | Failure e \<Rightarrow> True | _ \<Rightarrow> False)"

definition isStore :: "val list \<Rightarrow> bool" where
  "isStore args \<longleftrightarrow> args = []"

definition isIO :: "val list \<Rightarrow> bool" where
  "isIO args \<longleftrightarrow> args = []"

subsection \<open>equal\<close>

text \<open>
  \<^verbatim>\<open>zip(a, b)\<close> reads \<^verbatim>\<open>b.length\<close> and \<^verbatim>\<open>b[i]\<close>: a TypeError for \<^verbatim>\<open>undefined\<close> and
  \<^verbatim>\<open>null\<close>; the elements of an array; the characters of a string; \<^verbatim>\<open>undefined\<close>
  at each index below the declared parameter count of a function; and no index at all
  for a value without \<^verbatim>\<open>length\<close> (\<^verbatim>\<open>Math.min\<close> is then \<^verbatim>\<open>NaN\<close>).
\<close>

fun indexed :: "val \<Rightarrow> js_error + val list" where
  "indexed Undef = Inl (TypeError ''Cannot read property length of undefined'')"
| "indexed Null = Inl (TypeError ''Cannot read property length of null'')"
| "indexed (Arr ys) = Inr ys"
| "indexed (Str s) = Inr (map (\<lambda>c. Str [c]) s)"
| "indexed (Fun k n) = Inr (replicate n Undef)"
| "indexed ShrinkBooleanFn = Inr (replicate 1 Undef)"
| "indexed _ = Inr []"

text \<open>
  \<^verbatim>\<open>a === b\<close> for a boolean, number or string \<open>a\<close>: the same primitive value, except
  that \<^verbatim>\<open>NaN\<close> equals nothing.
\<close>

definition strictEquals :: "val \<Rightarrow> val \<Rightarrow> bool" where
  "strictEquals a b \<longleftrightarrow> a = b \<and> a \<noteq> Number NotANumber"

text \<open>
  The four registrations of \<^verbatim>\<open>equal\<close> in order (boolean, number, string: \<^verbatim>\<open>===\<close>;
  array: \<^verbatim>\<open>env.fold(zip(a, b), true, function(a, t) { return a && env.equal(t[0], t[1]); })\<close>)
  and the error of \<^verbatim>\<open>findRegistered\<close> for any other first argument.  \<open>equalFold\<close> is
  the loop of the array registration of \<^verbatim>\<open>fold\<close> over the zipped pairs.
\<close>

fun equal :: "val \<Rightarrow> val \<Rightarrow> js_error + val"
  and equalFold :: "val \<Rightarrow> val list \<Rightarrow> val list \<Rightarrow> js_error + val" where
  "equal (Bool a) b = Inr (Bool (strictEquals (Bool a) b))"
| "equal (Number a) b = Inr (Bool (strictEquals (Number a) b))"
| "equal (Str a) b = Inr (Bool (strictEquals (Str a) b))"
| "equal (Arr xs) b =
     (case indexed b of Inl e \<Rightarrow> Inl e | Inr ys \<Rightarrow> equalFold (Bool True) xs ys)"
| "equal Undef b = Inl notImplemented"
| "equal Null b = Inl notImplemented"
| "equal (Fun k n) b = Inl notImplemented"
| "equal ShrinkBooleanFn b = Inl notImplemented"
| "equal (OptSome x) b = Inl notImplemented"
| "equal OptNone b = Inl notImplemented"
| "equal (ELeft x) b = Inl notImplemented"
| "equal (ERight x) b = Inl notImplemented"
| "equal (Success x) b = Inl notImplemented"
| "equal (Failure x) b = Inl notImplemented"
| "equalFold acc [] ys = Inr acc"
| "equalFold acc (x # xs) [] = Inr acc"
| "equalFold acc (x # xs) (y # ys) =
     (if truthy acc
      then (case equal x y of Inl e \<Rightarrow> Inl e | Inr r \<Rightarrow> equalFold r xs ys)
      else equalFold acc xs ys)"

subsection \<open>shrink\<close>

text \<open>
  The loop of the number registration: \<^verbatim>\<open>while(x) { x = x / 2;
  x = x < 0 ? Math.ceil(x) : Math.floor(x); if(x) accum.push(n - x); }\<close>.  It does not
  end for an infinite \<open>x\<close>; \<open>None\<close> is the loop that never returns.
\<close>

partial_function (option) shrinkNumberLoop ::
  "number \<Rightarrow> number \<Rightarrow> number list \<Rightarrow> number list option" where
  "shrinkNumberLoop n x accum =
     (if numTruthy x
      then shrinkNumberLoop n (numTrunc (numHalve x))
             (if numTruthy (numTrunc (numHalve x))
              then accum @ [numSubtract n (numTrunc (numHalve x))] else accum)
      else Some accum)"

definition shrinkNumber :: "number \<Rightarrow> number list option" where
  "shrinkNumber n =
     shrinkNumberLoop n n (if numNegative n then [Finite 0] @ [numNegate n] else [Finite 0])"

function shrinkStringLoop :: "string \<Rightarrow> nat \<Rightarrow> string list \<Rightarrow> string list" where
  "shrinkStringLoop s x accum =
     (if x \<noteq> 0
      then (let x' = x div 2
            in shrinkStringLoop s x' (if x' \<noteq> 0 then accum @ [take (length s - x') s] else accum))
      else accum)"
  by pat_completeness auto
termination
  by (relation "measure (\<lambda>(s, x, accum). x)") auto

declare shrinkStringLoop.simps [simp del]

definition shrinkString :: "string \<Rightarrow> string list" where
  "shrinkString s = shrinkStringLoop s (length s) [[]]"

function shrinkArrayLoop :: "val list \<Rightarrow> nat \<Rightarrow> val list list \<Rightarrow> val list list" where
  "shrinkArrayLoop a x accum =
     (if x \<noteq> 0
      then (let x' = x div 2
            in shrinkArrayLoop a x' (if x' \<noteq> 0 then accum @ [drop (length a - x') a] else accum))
      else accum)"
  by pat_completeness auto
termination
  by (relation "measure (\<lambda>(a, x, accum). x)") auto

declare shrinkArrayLoop.simps [simp del]

definition shrinkArray :: "val list \<Rightarrow> val list list" where
  "shrinkArray a = shrinkArrayLoop a (length a) [[]]"

text \<open>
  The four registrations of \<^verbatim>\<open>shrink\<close> in order.  The boolean one is
  \<^verbatim>\<open>function() { return function(b) { return b ? [False] : []; }; }\<close>: it returns the
  inner function.  Since the number registration may not return, a call of \<^verbatim>\<open>shrink\<close>
  yields \<open>Inl\<close> an exception, \<open>Inr (Some v)\<close> the returned value, or \<open>Inr None\<close> when
  it never returns.
\<close>

fun shrink :: "val \<Rightarrow> js_error + val option" where
  "shrink (Bool b) = Inr (Some ShrinkBooleanFn)"
| "shrink (Number n) = Inr (map_option (\<lambda>cs. Arr (map Number cs)) (shrinkNumber n))"
| "shrink (Str s) = Inr (Some (Arr (map Str (shrinkString s))))"
| "shrink (Arr a) = Inr (Some (Arr (map Arr (shrinkArray a))))"
| "shrink _ = Inl notImplemented"

text \<open>
  The successive nonzero halvings \<open>x div 2\<close>, \<open>x div 4\<close>, \<dots> of \<open>x\<close>: the values the
  loop variable of the three loops above takes while candidates are pushed.
\<close>

function halvingsNat :: "nat \<Rightarrow> nat list" where
  "halvingsNat x = (if x div 2 = 0 then [] else (x div 2) # halvingsNat (x div 2))"
  by pat_completeness auto
termination
  by (relation "measure id") auto

declare halvingsNat.simps [simp del]

subsection \<open>Registration lists of the exported environment\<close>

text \<open>
  The lists below hold, for each method name, the registrations in the order of the
  \<^verbatim>\<open>.method(name, predicate, f)\<close> calls of the source.  Implementations that work on
  callers' functions, closures, coercions or values outside \<open>val\<close> are not embedded:
  the parameter \<open>ext\<close> gives, under a descriptive name, what each of them does, and
  every statement below holds for all \<open>ext\<close>.  The same parameter stands in where an
  embedded implementation is applied to a first argument its predicate excludes.
\<close>

type_synonym regs = "(this, val, val) registrations"

definition strictEqualsImpl :: "(string \<Rightarrow> impl) \<Rightarrow> impl" where
  "strictEqualsImpl ext this args =
     (if length args < 2 then ext ''strictEquals awaiting arguments'' this args
      else Inr (Bool (strictEquals (arg args 0) (arg args 1))))"

definition equalArrayImpl :: impl where
  "equalArrayImpl this args =
     (case this of
        ThisUndefined \<Rightarrow> Inl (TypeError ''Cannot read property fold of undefined'')
      | ThisBilby \<Rightarrow>
         (case indexed (arg args 0) of
            Inl e \<Rightarrow> Inl e
          | Inr xs \<Rightarrow>
             (case indexed (arg args 1) of
                Inl e \<Rightarrow> Inl e
              | Inr ys \<Rightarrow> equalFold (Bool True) xs ys)))"

definition equalRegs :: "(string \<Rightarrow> impl) \<Rightarrow> regs" where
  "equalRegs ext =
     [Some (Registration isBoolean (strictEqualsImpl ext) 0),
      Some (Registration isNumber (strictEqualsImpl ext) 0),
      Some (Registration isString (strictEqualsImpl ext) 0),
      Some (Registration isArray equalArrayImpl 2)]"

type_synonym shrinkImpl = "this \<Rightarrow> val list \<Rightarrow> js_error + val option"

definition returning :: "impl \<Rightarrow> shrinkImpl" where
  "returning g this args = (case g this args of Inl e \<Rightarrow> Inl e | Inr v \<Rightarrow> Inr (Some v))"

definition shrinkBooleanImpl :: shrinkImpl where
  "shrinkBooleanImpl this args = Inr (Some ShrinkBooleanFn)"

definition shrinkNumberImpl :: "(string \<Rightarrow> impl) \<Rightarrow> shrinkImpl" where
  "shrinkNumberImpl ext this args =
     (case arg args 0 of
        Number n \<Rightarrow> Inr (map_option (\<lambda>cs. Arr (map Number cs)) (shrinkNumber n))
      | _ \<Rightarrow> returning (ext ''shrink number'') this args)"

definition shrinkStringImpl :: "(string \<Rightarrow> impl) \<Rightarrow> shrinkImpl" where
  "shrinkStringImpl ext this args =
     (case arg args 0 of
        Str s \<Rightarrow> Inr (Some (Arr (map Str (shrinkString s))))
      | _ \<Rightarrow> returning (ext ''shrink string'') this args)"

definition shrinkArrayImpl :: "(string \<Rightarrow> impl) \<Rightarrow> shrinkImpl" where
  "shrinkArrayImpl ext this args =
     (case arg args 0 of
        Arr a \<Rightarrow> Inr (Some (Arr (map Arr (shrinkArray a))))
      | _ \<Rightarrow> returning (ext ''shrink array'') this args)"

definition shrinkRegs :: "(string \<Rightarrow> impl) \<Rightarrow> (this, val, val option) registrations" where
  "shrinkRegs ext =
     [Some (Registration isBoolean shrinkBooleanImpl 0),
      Some (Registration isNumber (shrinkNumberImpl ext) 1),
      Some (Registration isString (shrinkStringImpl ext) 1),
      Some (Registration isArray (shrinkArrayImpl ext) 1)]"

text \<open>\<^verbatim>\<open>ShrinkBooleanFn\<close> applied: \<^verbatim>\<open>b ? [False] : []\<close>, where \<^verbatim>\<open>False\<close> is not declared.\<close>

definition callShrinkBooleanFn :: "val list \<Rightarrow> js_error + val" where
  "callShrinkBooleanFn args =
     (if truthy (arg args 0) then Inl (ReferenceError ''False is not defined'')
      else Inr (Arr []))"

text \<open>
  The four methods of the object \<^verbatim>\<open>none\<close>, each \<^verbatim>\<open>function() { return this; }\<close>:
  no parameter is declared and no argument is read; \<open>self\<close> is the receiver.
\<close>

definition none_flatMap :: "val \<Rightarrow> js_error + val" where
  "none_flatMap self = Inr self"

definition none_map :: "val \<Rightarrow> js_error + val" where
  "none_map self = Inr self"

definition none_ap :: "val \<Rightarrow> js_error + val" where
  "none_ap self = Inr self"

definition none_append :: "val \<Rightarrow> js_error + val" where
  "none_append self = Inr self"

text \<open>
  The Option registrations call the method of that name on the first argument:
  \<^verbatim>\<open>a.flatMap(b)\<close>, \<^verbatim>\<open>a.map(b)\<close>, \<^verbatim>\<open>a.ap(b)\<close> and \<^verbatim>\<open>a.append(b, this.append)\<close>.
\<close>

definition optionFlatMapImpl :: "(string \<Rightarrow> impl) \<Rightarrow> impl" where
  "optionFlatMapImpl ext this args =
     (case arg args 0 of
        OptNone \<Rightarrow> none_flatMap OptNone
      | _ \<Rightarrow> ext ''some.flatMap'' this args)"

definition optionMapImpl :: "(string \<Rightarrow> impl) \<Rightarrow> impl" where
  "optionMapImpl ext this args =
     (case arg args 0 of
        OptNone \<Rightarrow> none_map OptNone
      | _ \<Rightarrow> ext ''some.map'' this args)"

definition optionApImpl :: "(string \<Rightarrow> impl) \<Rightarrow> impl" where
  "optionApImpl ext this args =
     (case arg args 0 of
        OptNone \<Rightarrow> none_ap OptNone
      | _ \<Rightarrow> ext ''some.ap'' this args)"

definition optionAppendImpl :: "(string \<Rightarrow> impl) \<Rightarrow> impl" where
  "optionAppendImpl ext this args =
     (case this of
        ThisUndefined \<Rightarrow> Inl (TypeError ''Cannot read property append of undefined'')
      | ThisBilby \<Rightarrow>
         (case arg args 0 of
            OptNone \<Rightarrow> none_append OptNone
          | _ \<Rightarrow> ext ''some.append'' this args))"

text \<open>\<^verbatim>\<open>a.concat(b)\<close>: the elements of an array \<open>b\<close>, or \<open>b\<close> itself as one element.\<close>

definition arrayAppendImpl :: "(string \<Rightarrow> impl) \<Rightarrow> impl" where
  "arrayAppendImpl ext this args =
     (case arg args 0 of
        Arr xs \<Rightarrow> Inr (Arr (case arg args 1 of Arr ys \<Rightarrow> xs @ ys | b \<Rightarrow> xs @ [b]))
      | _ \<Rightarrow> ext ''append array'' this args)"

definition appendRegs :: "(string \<Rightarrow> impl) \<Rightarrow> regs" where
  "appendRegs ext =
     [Some (Registration isArray (arrayAppendImpl ext) 2),
      Some (Registration isNumberOrString (ext ''append number or string'') 2),
      Some (Registration isOption (optionAppendImpl ext) 2),
      Some (Registration isEither (ext ''append either'') 2)]"

definition flatMapRegs :: "(string \<Rightarrow> impl) \<Rightarrow> regs" where
  "flatMapRegs ext =
     [Some (Registration isArray (ext ''flatMap array'') 2),
      Some (Registration isOption (optionFlatMapImpl ext) 2),
      Some (Registration isEither (ext ''flatMap either'') 2),
      Some (Registration isIO (ext ''flatMap io'') 2)]"

definition mapRegs :: "(string \<Rightarrow> impl) \<Rightarrow> regs" where
  "mapRegs ext =
     [Some (Registration isFunction (ext ''map function'') 2),
      Some (Registration isArray (ext ''map array'') 2),
      Some (Registration isOption (optionMapImpl ext) 2),
      Some (Registration isEither (ext ''map either'') 2),
      Some (Registration isValidation (ext ''map validation'') 2),
      Some (Registration isStore (ext ''map store'') 2)]"

text \<open>
  \<^verbatim>\<open>Validation.failure.prototype.ap = function(b, append)\<close>: \<^verbatim>\<open>b.cata\<close> with a table
  that names exactly \<^verbatim>\<open>success\<close> and \<^verbatim>\<open>failure\<close>; \<open>errs\<close> is \<^verbatim>\<open>this.errors\<close> and
  \<open>appendFn\<close> the parameter \<^verbatim>\<open>append\<close>.  A value
  that is no Validation has no \<^verbatim>\<open>cata\<close>.
\<close>

definition failure_ap :: "val \<Rightarrow> val \<Rightarrow> (val list \<Rightarrow> js_error + val) \<Rightarrow> js_error + val" where
  "failure_ap errs b appendFn =
     (case b of
        Success v \<Rightarrow> Inr (Failure errs)
      | Failure errors \<Rightarrow>
         (case appendFn [errs, errors] of Inl e \<Rightarrow> Inl e | Inr r \<Rightarrow> Inr (Failure r))
      | Undef \<Rightarrow> Inl (TypeError ''Cannot read property cata of undefined'')
      | Null \<Rightarrow> Inl (TypeError ''Cannot read property cata of null'')
      | _ \<Rightarrow> Inl (TypeError ''undefined is not a function''))"

text \<open>
  The Validation registration of \<^verbatim>\<open>ap\<close>: \<^verbatim>\<open>vf.ap(v, this.append)\<close>.  The method
  \<^verbatim>\<open>this.append\<close> is passed on without its receiver, so it later runs with \<^verbatim>\<open>this\<close>
  undefined.
\<close>

definition validationApImpl :: "(string \<Rightarrow> impl) \<Rightarrow> impl" where
  "validationApImpl ext this args =
     (case this of
        ThisUndefined \<Rightarrow> Inl (TypeError ''Cannot read property append of undefined'')
      | ThisBilby \<Rightarrow>
         (case arg args 0 of
            Failure errs \<Rightarrow>
              failure_ap errs (arg args 1) (makeMethod (appendRegs ext) ThisUndefined)
          | _ \<Rightarrow> ext ''success.ap'' this args))"

definition apRegs :: "(string \<Rightarrow> impl) \<Rightarrow> regs" where
  "apRegs ext =
     [Some (Registration isFunction (ext ''ap function'') 2),
      Some (Registration isArray (ext ''ap array'') 2),
      Some (Registration isOption (optionApImpl ext) 2),
      Some (Registration isEither (ext ''ap either'') 2),
      Some (Registration isValidation (validationApImpl ext) 2)]"

section \<open>Properties of objects\<close>

lemma map_of_js_set: "map_of (js_set ob k v) = (map_of ob)(k \<mapsto> v)"
  by (induction ob) (auto simp: fun_eq_iff)

lemma keys_js_set:
  "map fst (js_set ob k v) = (if k \<in> set (map fst ob) then map fst ob else map fst ob @ [k])"
  by (induction ob) (auto simp: rev_image_eqI)

lemma js_set_fresh: "k \<notin> set (map fst ob) \<Longrightarrow> js_set ob k v = ob @ [(k, v)]"
  by (induction ob) auto

lemma js_set_same: "distinct (map fst ob) \<Longrightarrow> map_of ob k = Some v \<Longrightarrow> js_set ob k v = ob"
  by (induction ob) (auto split: if_splits)

lemma copyInto_append:
  "distinct (map fst (acc @ src)) \<Longrightarrow> copyInto acc src = acc @ src"
proof (induction src arbitrary: acc)
  case Nil
  then show ?case by (simp add: copyInto_def)
next
  case (Cons p src)
  obtain k v where p: "p = (k, v)" by (cases p)
  from Cons.prems p have fresh: "k \<notin> set (map fst acc)" by auto
  from Cons.prems p have d: "distinct (map fst ((acc @ [(k, v)]) @ src))" by auto
  have "copyInto acc (p # src) = copyInto (js_set acc k v) src"
    by (simp add: copyInto_def p)
  also have "\<dots> = copyInto (acc @ [(k, v)]) src"
    using fresh by (simp add: js_set_fresh)
  also have "\<dots> = (acc @ [(k, v)]) @ src"
    using Cons.IH [OF d] .
  finally show ?case by (simp add: p)
qed

lemma copyInto_Nil: "distinct (map fst ob) \<Longrightarrow> copyInto [] ob = ob"
  using copyInto_append [of "[]" ob] by simp

lemma map_of_copyInto:
  "distinct (map fst src) \<Longrightarrow> map_of (copyInto acc src) = map_of acc ++ map_of src"
proof (induction src arbitrary: acc)
  case Nil
  then show ?case by (simp add: copyInto_def)
next
  case (Cons p src)
  obtain k v where p: "p = (k, v)" by (cases p)
  have "copyInto acc (p # src) = copyInto (js_set acc k v) src"
    by (simp add: copyInto_def p)
  moreover have "map_of (copyInto (js_set acc k v) src) = map_of (js_set acc k v) ++ map_of src"
    using Cons by simp
  moreover have "k \<notin> dom (map_of src)" using Cons.prems p by (auto simp: dom_map_of_conv_image_fst)
  ultimately show ?case
    by (auto simp: p map_of_js_set fun_eq_iff map_add_def split: option.splits)
qed

lemma keys_copyInto_distinct:
  "distinct (map fst acc) \<Longrightarrow> distinct (map fst (copyInto acc src))"
proof (induction src arbitrary: acc)
  case Nil
  then show ?case by (simp add: copyInto_def)
next
  case (Cons p src)
  obtain k v where p: "p = (k, v)" by (cases p)
  have "distinct (map fst (js_set acc k v))" using Cons.prems by (simp add: keys_js_set)
  from Cons.IH [OF this] show ?case by (simp add: copyInto_def p)
qed

lemma map_of_extend:
  "distinct (map fst a) \<Longrightarrow> distinct (map fst b) \<Longrightarrow> map_of (extend a b) = map_of a ++ map_of b"
  by (simp add: extend_def map_of_copyInto)

lemma copyInto_one: "copyInto acc [(k, v)] = js_set acc k v"
  by (simp add: copyInto_def)

lemma extend_singleton:
  "distinct (map fst ob) \<Longrightarrow> extend ob (singleton k v) = js_set ob k v"
  by (simp add: extend_def singleton_def copyInto_Nil copyInto_one)

lemma extend_singleton_own:
  assumes "distinct (map fst ob)" "map_of ob k = Some v"
  shows "extend ob (singleton k v) = ob"
  using assms by (simp add: extend_singleton js_set_same)

lemma extend_singleton_fresh:
  assumes "distinct (map fst ob)" "map_of ob k = None"
  shows "extend ob (singleton k v) = ob @ [(k, v)]"
proof -
  from assms(2) have "k \<notin> set (map fst ob)" by (simp add: map_of_eq_None_iff)
  then show ?thesis using assms(1)
    by (simp add: extend_singleton js_set_fresh)
qed

lemma map_of_extend_singleton:
  "distinct (map fst ob) \<Longrightarrow> map_of (extend ob (singleton k v)) = (map_of ob)(k \<mapsto> v)"
  by (simp add: extend_singleton map_of_js_set)

section \<open>Properties of lenses\<close>

lemma js_read_map_of:
  "js_read ob k =
     (case map_of ob k of Some v \<Rightarrow> v
      | None \<Rightarrow> if k \<in> set objectPrototypeNames then Proto k else Undefined)"
  by (simp add: js_read_def js_get_def split: option.splits)

lemma objectLens_setter: "setter (run (objectLens k) ob) v = extend ob (singleton k v)"
  by (simp add: objectLens_def)

lemma objectLens_getter: "getter (run (objectLens k) ob) = js_read ob k"
  by (simp add: objectLens_def)

text \<open>
  C9, as stated, fails for a key the object does not own: the getter reads
  \<^verbatim>\<open>undefined\<close> and the setter then adds the key, so get-then-set of the empty object
  over \<^verbatim>\<open>k\<close> is \<^verbatim>\<open>{k: undefined}\<close>, an object with one more own key.
\<close>

theorem objectLens_get_set_counterexample:
  "setter (run (objectLens ''k'') ([] :: nat part object))
     (getter (run (objectLens ''k'') ([] :: nat part object))) = [(''k'', Undefined)]
   \<and> setter (run (objectLens ''k'') ([] :: nat part object))
     (getter (run (objectLens ''k'') ([] :: nat part object))) \<noteq> []"
  by (simp add: objectLens_setter objectLens_getter js_read_map_of extend_def singleton_def
      copyInto_def objectPrototypeNames_def)

text \<open>
  C9 (amended): for \<open>L = objectLens k\<close> and an object \<open>o\<close>, get-then-set gives back
  \<open>o\<close> itself when \<open>k\<close> is an own key of \<open>o\<close>, and for every \<open>k\<close> gives an object in
  which each key reads as it does in \<open>o\<close>; set-then-get returns the value that was set;
  and the setter's result reads every key other than \<open>k\<close> as \<open>o\<close> does.
\<close>

theorem objectLens_round_trip:
  assumes "distinct (map fst ob)" and "k \<noteq> ''__proto__''"
  shows "(k \<in> set (map fst ob) \<longrightarrow>
            setter (run (objectLens k) ob) (getter (run (objectLens k) ob)) = ob)
       \<and> (\<forall>j. js_read (setter (run (objectLens k) ob) (getter (run (objectLens k) ob))) j
              = js_read ob j)
       \<and> getter (run (objectLens k) (setter (run (objectLens k) ob) v)) = v
       \<and> (\<forall>j. j \<noteq> k \<longrightarrow> js_read (setter (run (objectLens k) ob) v) j = js_read ob j)"
proof -
  let ?g = "getter (run (objectLens k) ob)"
  have own: "setter (run (objectLens k) ob) ?g = ob" if "k \<in> set (map fst ob)"
  proof -
    from that obtain w where w: "map_of ob k = Some w"
      by (metis map_of_eq_None_iff not_Some_eq set_map)
    then have "?g = w" by (simp add: objectLens_getter js_read_map_of)
    with w assms(1) show ?thesis by (simp add: objectLens_setter extend_singleton_own)
  qed
  have m: "map_of (setter (run (objectLens k) ob) x) = (map_of ob)(k \<mapsto> x)" for x
    using assms(1) by (simp add: objectLens_setter map_of_extend_singleton)
  have reads: "js_read (setter (run (objectLens k) ob) ?g) j = js_read ob j" for j
    by (cases "j = k")
      (auto simp: js_read_map_of m objectLens_getter split: option.splits)
  have setget: "getter (run (objectLens k) (setter (run (objectLens k) ob) v)) = v"
    by (simp add: objectLens_getter js_read_map_of m)
  have others: "js_read (setter (run (objectLens k) ob) v) j = js_read ob j" if "j \<noteq> k" for j
    using that by (simp add: js_read_map_of m)
  from own reads setget others show ?thesis by blast
qed

theorem objectLens_round_trip_witness:
  "distinct (map fst [(''k'', Value (1::nat)), (''j'', Value 2)]) \<and> ''k'' \<noteq> ''__proto__''
   \<and> setter (run (objectLens ''k'') [(''k'', Value (1::nat)), (''j'', Value 2)])
        (getter (run (objectLens ''k'') [(''k'', Value (1::nat)), (''j'', Value 2)]))
      = [(''k'', Value 1), (''j'', Value 2)]
   \<and> getter (run (objectLens ''k'')
        (setter (run (objectLens ''k'') [(''k'', Value (1::nat)), (''j'', Value 2)]) (Value 5)))
      = Value 5
   \<and> js_read (setter (run (objectLens ''k'') [(''k'', Value (1::nat)), (''j'', Value 2)]) (Value 5)) ''j''
      = Value 2"
proof -
  have d: "distinct (map fst [(''k'', Value (1::nat)), (''j'', Value 2)])" by simp
  have p: "''k'' \<noteq> ''__proto__''" by simp
  have r: "js_read [(''k'', Value (1::nat)), (''j'', Value 2)] ''j'' = Value 2"
    by (simp add: js_read_map_of)
  show ?thesis
    using objectLens_round_trip [OF d p, of "Value 5"] d r by simp
qed

section \<open>Properties of dispatch\<close>

lemma findRegistered_map_Some:
  "findRegistered (map Some rs) args =
     (case find (\<lambda>r. predicate r args) rs of
        None \<Rightarrow> Inl notImplemented | Some r \<Rightarrow> Inr (f r))"
  by (induction rs) auto

lemma makeMethod_map_Some:
  "makeMethod (map Some rs) this args =
     (case find (\<lambda>r. predicate r args) rs of
        None \<Rightarrow> Inl notImplemented | Some r \<Rightarrow> f r this args)"
  by (simp add: makeMethod_def findRegistered_map_Some split: option.splits)

lemma findRegistered_append:
  "findRegistered (bs @ xs) args =
     (if findRegistered bs args = Inl notImplemented then findRegistered xs args
      else findRegistered bs args)"
proof (induction bs)
  case Nil
  then show ?case by simp
next
  case (Cons b bs)
  then show ?case by (cases b) (auto simp: notImplemented_def)
qed

lemma callMember_Multimethod:
  "resolve e m = Multimethod regs \<Longrightarrow> callMember this e m args = Some (makeMethod regs this args)"
  by (simp add: callMember_def)




lemma environment_Inr_iff:
  "environment ms ps = Inr e \<longleftrightarrow>
     find taken (map fst ms) = None
     \<and> find (\<lambda>i. taken i \<or> i \<in> set (map fst ms)) (map fst ps) = None
     \<and> e = Env ms ps"
  by (auto simp: environment_def split: option.splits)

lemma resolve_NoMember_iff:
  "resolve e n = NoMember \<longleftrightarrow>
     \<not> taken n \<and> map_of (methods e) n = None \<and> map_of (properties e) n = None"
  by (auto simp: resolve_def taken_def split: option.splits)

lemma find_None_append:
  "find P (xs @ ys) = None \<longleftrightarrow> find P xs = None \<and> find P ys = None"
  by (induction xs) auto

lemma map_of_snoc:
  "map_of (ms @ [(n, v)]) m =
     (case map_of ms m of Some w \<Rightarrow> Some w | None \<Rightarrow> if m = n then Some v else None)"
  by (induction ms) auto

lemma resolve_Env_methods_append:
  assumes "m \<noteq> n"
  shows "resolve (Env (ms @ [(n, regs)]) ps) m = resolve (Env ms ps) m"
  using assms by (simp add: resolve_def map_of_snoc del: map_of_append split: option.splits)

lemma env_method_fresh:
  assumes wf: "environment (methods e) (properties e) = Inr e"
    and dm: "distinct (map fst (methods e))"
    and fresh: "resolve e n = NoMember"
  shows "env_method e n r = Inr (Env (methods e @ [(n, [Some r])]) (properties e))"
proof -
  from fresh have nt: "\<not> taken n" and nm: "map_of (methods e) n = None"
    and np: "map_of (properties e) n = None"
    by (simp_all add: resolve_NoMember_iff)
  from nt have "n \<notin> set objectPrototypeNames" by (simp add: taken_def)
  with nm have g: "js_get (methods e) n = Absent" by (simp add: js_get_def)
  have ext: "extend (methods e) (singleton n [Some r]) = methods e @ [(n, [Some r])]"
    using dm nm by (rule extend_singleton_fresh)
  from wf have f1: "find taken (map fst (methods e)) = None"
    and f2: "find (\<lambda>i. taken i \<or> i \<in> set (map fst (methods e))) (map fst (properties e)) = None"
    by (simp_all add: environment_Inr_iff)
  from np have npk: "n \<notin> set (map fst (properties e))" by (simp add: map_of_eq_None_iff)
  have f1': "find taken (map fst (methods e @ [(n, [Some r])])) = None"
    using f1 nt by (simp add: find_None_append)
  have f2': "find (\<lambda>i. taken i \<or> i \<in> set (map fst (methods e @ [(n, [Some r])])))
               (map fst (properties e)) = None"
    using f2 npk by (auto simp: find_None_iff)
  show ?thesis
    using f1' f2' by (simp add: env_method_def g ext environment_Inr_iff)
qed

text \<open>
  C2 (amended): let \<open>e\<close> be a constructed environment and \<open>n\<close> a name that is no member of
  \<open>e\<close> at all (no method, no property, none of the members \<^verbatim>\<open>method\<close>, \<^verbatim>\<open>property\<close>,
  \<^verbatim>\<open>envConcat\<close>, \<^verbatim>\<open>envAppend\<close>, and no name inherited from \<^verbatim>\<open>Object.prototype\<close>).
  Then \<^verbatim>\<open>e.method(n, p, f)\<close> returns an environment \<open>e'\<close> in which \<open>n\<close> is the
  multimethod with that one registration, a call to \<open>n\<close> whose arguments satisfy \<open>p\<close>
  invokes \<open>f\<close>, and every other name resolves as in \<open>e\<close>; on \<open>e\<close> itself the call to
  \<open>n\<close> still fails, with the runtime's TypeError for calling a missing member.
\<close>

theorem method_registers_fresh_name:
  assumes wf: "environment (methods e) (properties e) = Inr e"
    and dm: "distinct (map fst (methods e))"
    and fresh: "resolve e n = NoMember"
  shows "\<exists>e'. env_method e n r = Inr e'
           \<and> resolve e' n = Multimethod [Some r]
           \<and> (predicate r args \<longrightarrow> callMember this e' n args = Some (f r this args))
           \<and> (\<forall>m. m \<noteq> n \<longrightarrow> resolve e' m = resolve e m)
           \<and> callMember this e n args = Some (Inl (TypeError ''undefined is not a function''))"
proof -
  let ?e' = "Env (methods e @ [(n, [Some r])]) (properties e)"
  from fresh have nt: "\<not> taken n" and nm: "map_of (methods e) n = None"
    by (simp_all add: resolve_NoMember_iff)
  have 1: "env_method e n r = Inr ?e'" using wf dm fresh by (rule env_method_fresh)
  have 2: "resolve ?e' n = Multimethod [Some r]"
    using nt nm by (simp add: resolve_def taken_def map_of_snoc del: map_of_append)
  have 3: "callMember this ?e' n args = Some (f r this args)" if "predicate r args"
    using that 2 by (simp add: callMember_def makeMethod_def)
  have 4: "resolve ?e' m = resolve e m" if "m \<noteq> n" for m
    using resolve_Env_methods_append [OF that, where ms = "methods e" and ps = "properties e"]
    by simp
  have 5: "callMember this e n args = Some (Inl (TypeError ''undefined is not a function''))"
    using fresh by (simp add: callMember_def)
  from 1 2 3 4 5 show ?thesis by blast
qed

theorem method_registers_fresh_name_witness:
  "environment (methods (Env [] [] :: (this, val, val, val) env)) (properties (Env [] [] :: (this, val, val, val) env)) = Inr (Env [] [] :: (this, val, val, val) env)
   \<and> distinct (map fst (methods (Env [] [] :: (this, val, val, val) env)))
   \<and> resolve (Env [] [] :: (this, val, val, val) env) ''negate'' = NoMember
   \<and> env_method (Env [] [] :: (this, val, val, val) env) ''negate'' (Registration isNumber (\<lambda>this args. Inr (Str ''number'')) 1) = Inr (Env [(''negate'', [Some (Registration isNumber (\<lambda>this args. Inr (Str ''number'')) 1)])] [] :: (this, val, val, val) env)
   \<and> resolve (Env [(''negate'', [Some (Registration isNumber (\<lambda>this args. Inr (Str ''number'')) 1)])] [] :: (this, val, val, val) env) ''negate'' = Multimethod [Some (Registration isNumber (\<lambda>this args. Inr (Str ''number'')) 1)]
   \<and> callMember ThisBilby (Env [(''negate'', [Some (Registration isNumber (\<lambda>this args. Inr (Str ''number'')) 1)])] [] :: (this, val, val, val) env) ''negate'' [Num 100] = Some (Inr (Str ''number''))
   \<and> resolve (Env [(''negate'', [Some (Registration isNumber (\<lambda>this args. Inr (Str ''number'')) 1)])] [] :: (this, val, val, val) env) ''equal'' = resolve (Env [] [] :: (this, val, val, val) env) ''equal''
   \<and> callMember ThisBilby (Env [] [] :: (this, val, val, val) env) ''negate'' [Num 100]
       = Some (Inl (TypeError ''undefined is not a function''))"
proof -
  let ?e = "(Env [] [] :: (this, val, val, val) env)"
  let ?r = "(Registration isNumber (\<lambda>this args. Inr (Str ''number'')) 1) :: (this, val, val) registration"
  have wf: "environment (methods ?e) (properties ?e) = Inr ?e"
    by (simp add: environment_def)
  have dm: "distinct (map fst (methods ?e))" by simp
  have fresh: "resolve ?e ''negate'' = NoMember"
    by (simp add: resolve_def ownMembers_def objectPrototypeNames_def)
  have p: "predicate ?r [Num 100]" by (simp add: isNumber_def arg_def)
  have ne: "''equal'' \<noteq> ''negate''" by simp
  from method_registers_fresh_name [OF wf dm fresh, of ?r "[Num 100]" ThisBilby]
  obtain e' where all: "env_method ?e ''negate'' ?r = Inr e'
           \<and> resolve e' ''negate'' = Multimethod [Some ?r]
           \<and> (predicate ?r [Num 100] \<longrightarrow>
                callMember ThisBilby e' ''negate'' [Num 100] = Some (f ?r ThisBilby [Num 100]))
           \<and> (\<forall>m. m \<noteq> ''negate'' \<longrightarrow> resolve e' m = resolve ?e m)
           \<and> callMember ThisBilby ?e ''negate'' [Num 100]
                = Some (Inl (TypeError ''undefined is not a function''))" ..
  note m = all [THEN conjunct1]
  note r = all [THEN conjunct2, THEN conjunct1]
  note c = all [THEN conjunct2, THEN conjunct2, THEN conjunct1]
  note o = all [THEN conjunct2, THEN conjunct2, THEN conjunct2, THEN conjunct1]
  note u = all [THEN conjunct2, THEN conjunct2, THEN conjunct2, THEN conjunct2]
  have k: "env_method ?e ''negate'' ?r = Inr (Env [(''negate'', [Some (Registration isNumber (\<lambda>this args. Inr (Str ''number'')) 1)])] [] :: (this, val, val, val) env)"
    by (simp add: env_method_fresh [OF wf dm fresh])
  from m k have e': "e' = (Env [(''negate'', [Some (Registration isNumber (\<lambda>this args. Inr (Str ''number'')) 1)])] [] :: (this, val, val, val) env)" by (simp only: sum.inject)
  have c': "callMember ThisBilby e' ''negate'' [Num 100] = Some (Inr (Str ''number''))"
    using c [rule_format, OF p] by (simp only: registration.sel)
  note o' = o [rule_format, OF ne]
  note facts = wf dm fresh m [unfolded e'] r [unfolded e'] c' [unfolded e'] o' [unfolded e'] u
  show ?thesis by (intro conjI) (rule facts)+
qed

text \<open>
  C2, as stated, fails twice: the call to an unregistered name on \<open>e\<close> does not throw
  the dispatch error but a TypeError, and registering under the unregistered name
  \<^verbatim>\<open>envAppend\<close> throws instead of returning an environment.
\<close>

theorem unregistered_call_counterexample:
  "callMember ThisBilby (Env [] [] :: (this, val, val, val) env) ''negate'' [Num 100]
     = Some (Inl (TypeError ''undefined is not a function''))
   \<and> callMember ThisBilby (Env [] [] :: (this, val, val, val) env) ''negate'' [Num 100] \<noteq> Some (Inl notImplemented)
   \<and> resolve (Env [] [] :: (this, val, val, val) env) ''envAppend'' = BuiltIn ''envAppend''
   \<and> env_method (Env [] [] :: (this, val, val, val) env) ''envAppend'' (Registration isNumber (\<lambda>this args. Inr (Str ''number'')) 1)
     = Inl (Error ''Method envAppend already in environment.'')"
  by (simp add: callMember_def resolve_def ownMembers_def objectPrototypeNames_def
      notImplemented_def env_method_def js_get_def extend_def singleton_def copyInto_def
      environment_def taken_def)

lemma concat_loop:
  "distinct (map fst acc @ map fst ms) \<Longrightarrow>
   foldl (\<lambda>nm (i, regs). js_set nm i (g i regs)) acc ms
     = acc @ map (\<lambda>(i, regs). (i, g i regs)) ms"
proof (induction ms arbitrary: acc)
  case Nil
  then show ?case by simp
next
  case (Cons p ms)
  obtain i regs where p: "p = (i, regs)" by (cases p)
  from Cons.prems p have fresh: "i \<notin> set (map fst acc)" by auto
  from Cons.prems p have d: "distinct (map fst (acc @ [(i, g i regs)]) @ map fst ms)" by auto
  show ?case
    using Cons.IH [OF d] fresh by (simp add: p js_set_fresh)
qed

lemma map_of_map_entries:
  "map_of (map (\<lambda>(i, regs). (i, g i regs)) ms) m = map_option (g m) (map_of ms m)"
  by (induction ms) auto

lemma extra_loop_keeps:
  "map_of nm m = Some v \<Longrightarrow>
   map_of (foldl (\<lambda>nm (i, regs). if js_in i nm then nm else js_set nm i regs) nm xs) m = Some v"
proof (induction xs arbitrary: nm)
  case Nil
  then show ?case by simp
next
  case (Cons p xs)
  obtain i regs where p: "p = (i, regs)" by (cases p)
  have "map_of (if js_in i nm then nm else js_set nm i regs) m = Some v"
  proof (cases "js_in i nm")
    case True
    with Cons.prems show ?thesis by simp
  next
    case False
    then have "map_of nm i = None"
      by (simp add: js_in_def js_get_def split: option.splits if_splits)
    with Cons.prems have "i \<noteq> m" by auto
    with False Cons.prems show ?thesis by (simp add: map_of_js_set)
  qed
  from Cons.IH [OF this] show ?case by (simp add: p)
qed

lemma map_of_Some_key: "map_of xs k = Some v \<Longrightarrow> k \<in> set (map fst xs)"
  by (induction xs) (auto split: if_splits)

lemma find_None_member: "find P xs = None \<Longrightarrow> x \<in> set xs \<Longrightarrow> \<not> P x"
  by (simp add: find_None_iff)

text \<open>
  C3: when \<^verbatim>\<open>envConcat(extraMethods, extraProperties)\<close> on \<open>base\<close> returns \<open>e'\<close>, every
  method name defined by both sides is in \<open>e'\<close> the multimethod over the base's
  registrations followed by the extra's, so a call tries the extra's only after all of
  the base's; every property name defined by both sides has the extra side's value; and
  \<^verbatim>\<open>receiver.envAppend(e)\<close> is \<^verbatim>\<open>e.envConcat\<close> applied to the receiver's methods and
  properties.
\<close>

theorem envConcat_merge:
  assumes ok: "envConcat base extraMethods extraProperties = Inr e'"
    and dm: "distinct (map fst (methods base))"
    and dp: "distinct (map fst (properties base))"
    and dx: "distinct (map fst extraProperties)"
  shows "(\<forall>m bs xs. map_of (methods base) m = Some bs \<and> map_of extraMethods m = Some xs \<longrightarrow>
            resolve e' m = Multimethod (bs @ xs)
            \<and> (\<forall>this args. callMember this e' m args =
                  Some (if findRegistered bs args = Inl notImplemented
                        then makeMethod xs this args else makeMethod bs this args)))
       \<and> (\<forall>k v w. map_of (properties base) k = Some v \<and> map_of extraProperties k = Some w \<longrightarrow>
            resolve e' k = PropertyValue w)
       \<and> envAppend receiver e = envConcat e (methods receiver) (properties receiver)"
proof -
  let ?nm1 = "foldl (\<lambda>nm (i, regs). js_set nm i (concatExtra regs (js_get extraMethods i)))
                [] (methods base)"
  let ?nm = "foldl (\<lambda>nm (i, regs). if js_in i nm then nm else js_set nm i regs) ?nm1 extraMethods"
  let ?np = "extend (properties base) extraProperties"
  from ok have env: "environment ?nm ?np = Inr e'"
    by (simp add: envConcat_def Let_def)
  then have e': "e' = Env ?nm ?np"
    and f1: "find taken (map fst ?nm) = None"
    and f2: "find (\<lambda>i. taken i \<or> i \<in> set (map fst ?nm)) (map fst ?np) = None"
    by (simp_all add: environment_Inr_iff)
  have nm1: "?nm1 = map (\<lambda>(i, regs). (i, concatExtra regs (js_get extraMethods i))) (methods base)"
    using concat_loop [of "[]" "methods base"] dm by simp
  have meth: "map_of ?nm m = Some (bs @ xs) \<and> \<not> taken m"
    if b: "map_of (methods base) m = Some bs" and x: "map_of extraMethods m = Some xs" for m bs xs
  proof -
    from x have "js_get extraMethods m = Own xs" by (simp add: js_get_def)
    with b have "map_of ?nm1 m = Some (bs @ xs)"
      by (simp only: nm1 map_of_map_entries) (simp add: concatExtra_def)
    then have 1: "map_of ?nm m = Some (bs @ xs)" by (rule extra_loop_keeps)
    then have "m \<in> set (map fst ?nm)" by (rule map_of_Some_key)
    with f1 have "\<not> taken m" by (rule find_None_member)
    with 1 show ?thesis by simp
  qed
  have part1: "resolve e' m = Multimethod (bs @ xs)
            \<and> (\<forall>this args. callMember this e' m args =
                  Some (if findRegistered bs args = Inl notImplemented
                        then makeMethod xs this args else makeMethod bs this args))"
    if b: "map_of (methods base) m = Some bs" and x: "map_of extraMethods m = Some xs" for m bs xs
  proof -
    from meth [OF b x] have r: "resolve e' m = Multimethod (bs @ xs)"
      by (simp add: resolve_def e' taken_def)
    then have "callMember this e' m args =
                  Some (if findRegistered bs args = Inl notImplemented
                        then makeMethod xs this args else makeMethod bs this args)" for this args
      by (simp add: callMember_Multimethod makeMethod_def findRegistered_append)
    with r show ?thesis by simp
  qed
  have part2: "resolve e' k = PropertyValue w"
    if v: "map_of (properties base) k = Some v" and w: "map_of extraProperties k = Some w" for k v w
  proof -
    have mp: "map_of ?np k = Some w"
      using dp dx w by (simp add: map_of_extend)
    then have "k \<in> set (map fst ?np)" by (rule map_of_Some_key)
    with f2 have "\<not> (taken k \<or> k \<in> set (map fst ?nm))" by (rule find_None_member)
    then have "\<not> taken k" and "map_of ?nm k = None" by (simp_all add: map_of_eq_None_iff)
    with mp show ?thesis by (simp add: resolve_def e' taken_def)
  qed
  have part3: "envAppend receiver e = envConcat e (methods receiver) (properties receiver)"
    by (simp add: envAppend_def)
  from part1 part2 part3 show ?thesis by blast
qed

theorem envConcat_merge_witness:
  "envConcat (Env [(''show'', [Some (Registration isNumber (\<lambda>this args. Inr (Str ''base'')) 1)])] [(''name'', Str ''base'')] :: (this, val, val, val) env) ([(''show'', [Some (Registration (\<lambda>args. True) (\<lambda>this args. Inr (Str ''extra'')) 1)])] :: (this, val, val) registrations object) [(''name'', Str ''extra'')] = Inr (Env [(''show'', [Some (Registration isNumber (\<lambda>this args. Inr (Str ''base'')) 1), Some (Registration (\<lambda>args. True) (\<lambda>this args. Inr (Str ''extra'')) 1)])] [(''name'', Str ''extra'')] :: (this, val, val, val) env)
   \<and> distinct (map fst (methods (Env [(''show'', [Some (Registration isNumber (\<lambda>this args. Inr (Str ''base'')) 1)])] [(''name'', Str ''base'')] :: (this, val, val, val) env)))
   \<and> distinct (map fst (properties (Env [(''show'', [Some (Registration isNumber (\<lambda>this args. Inr (Str ''base'')) 1)])] [(''name'', Str ''base'')] :: (this, val, val, val) env)))
   \<and> distinct (map fst [(''name'', Str ''extra'')])
   \<and> resolve (Env [(''show'', [Some (Registration isNumber (\<lambda>this args. Inr (Str ''base'')) 1), Some (Registration (\<lambda>args. True) (\<lambda>this args. Inr (Str ''extra'')) 1)])] [(''name'', Str ''extra'')] :: (this, val, val, val) env) ''show'' = Multimethod ([Some (Registration isNumber (\<lambda>this args. Inr (Str ''base'')) 1)] @ [Some (Registration (\<lambda>args. True) (\<lambda>this args. Inr (Str ''extra'')) 1)])
   \<and> callMember ThisBilby (Env [(''show'', [Some (Registration isNumber (\<lambda>this args. Inr (Str ''base'')) 1), Some (Registration (\<lambda>args. True) (\<lambda>this args. Inr (Str ''extra'')) 1)])] [(''name'', Str ''extra'')] :: (this, val, val, val) env) ''show'' [Num 1] = Some (Inr (Str ''base''))
   \<and> callMember ThisBilby (Env [(''show'', [Some (Registration isNumber (\<lambda>this args. Inr (Str ''base'')) 1), Some (Registration (\<lambda>args. True) (\<lambda>this args. Inr (Str ''extra'')) 1)])] [(''name'', Str ''extra'')] :: (this, val, val, val) env) ''show'' [Str ''a''] = Some (Inr (Str ''extra''))
   \<and> resolve (Env [(''show'', [Some (Registration isNumber (\<lambda>this args. Inr (Str ''base'')) 1), Some (Registration (\<lambda>args. True) (\<lambda>this args. Inr (Str ''extra'')) 1)])] [(''name'', Str ''extra'')] :: (this, val, val, val) env) ''name'' = PropertyValue (Str ''extra'')"
proof -
  have ok: "envConcat (Env [(''show'', [Some (Registration isNumber (\<lambda>this args. Inr (Str ''base'')) 1)])] [(''name'', Str ''base'')] :: (this, val, val, val) env) ([(''show'', [Some (Registration (\<lambda>args. True) (\<lambda>this args. Inr (Str ''extra'')) 1)])] :: (this, val, val) registrations object) [(''name'', Str ''extra'')] = Inr (Env [(''show'', [Some (Registration isNumber (\<lambda>this args. Inr (Str ''base'')) 1), Some (Registration (\<lambda>args. True) (\<lambda>this args. Inr (Str ''extra'')) 1)])] [(''name'', Str ''extra'')] :: (this, val, val, val) env)"
    by (simp add: envConcat_def js_get_def js_in_def concatExtra_def environment_def
        extend_def copyInto_def taken_def ownMembers_def objectPrototypeNames_def)
  have dm: "distinct (map fst (methods (Env [(''show'', [Some (Registration isNumber (\<lambda>this args. Inr (Str ''base'')) 1)])] [(''name'', Str ''base'')] :: (this, val, val, val) env)))" by simp
  have dp: "distinct (map fst (properties (Env [(''show'', [Some (Registration isNumber (\<lambda>this args. Inr (Str ''base'')) 1)])] [(''name'', Str ''base'')] :: (this, val, val, val) env)))" by simp
  have dx: "distinct (map fst [(''name'', Str ''extra'')])" by simp
  note all = envConcat_merge [OF ok dm dp dx]
  have b: "map_of (methods (Env [(''show'', [Some (Registration isNumber (\<lambda>this args. Inr (Str ''base'')) 1)])] [(''name'', Str ''base'')] :: (this, val, val, val) env)) ''show'' = Some [Some (Registration isNumber (\<lambda>this args. Inr (Str ''base'')) 1)]
           \<and> map_of ([(''show'', [Some (Registration (\<lambda>args. True) (\<lambda>this args. Inr (Str ''extra'')) 1)])] :: (this, val, val) registrations object) ''show'' = Some [Some (Registration (\<lambda>args. True) (\<lambda>this args. Inr (Str ''extra'')) 1)]" by simp
  have p: "map_of (properties (Env [(''show'', [Some (Registration isNumber (\<lambda>this args. Inr (Str ''base'')) 1)])] [(''name'', Str ''base'')] :: (this, val, val, val) env)) ''name'' = Some (Str ''base'')
           \<and> map_of [(''name'', Str ''extra'')] ''name'' = Some (Str ''extra'')" by simp
  note m = all [THEN conjunct1, rule_format, OF b]
  note r = m [THEN conjunct1]
  note c = m [THEN conjunct2, rule_format]
  have c1: "callMember ThisBilby (Env [(''show'', [Some (Registration isNumber (\<lambda>this args. Inr (Str ''base'')) 1), Some (Registration (\<lambda>args. True) (\<lambda>this args. Inr (Str ''extra'')) 1)])] [(''name'', Str ''extra'')] :: (this, val, val, val) env) ''show'' [Num 1] = Some (Inr (Str ''base''))"
    using c [of ThisBilby "[Num 1]"]
    by (simp add: makeMethod_def isNumber_def arg_def notImplemented_def)
  have c2: "callMember ThisBilby (Env [(''show'', [Some (Registration isNumber (\<lambda>this args. Inr (Str ''base'')) 1), Some (Registration (\<lambda>args. True) (\<lambda>this args. Inr (Str ''extra'')) 1)])] [(''name'', Str ''extra'')] :: (this, val, val, val) env) ''show'' [Str ''a''] = Some (Inr (Str ''extra''))"
    using c [of ThisBilby "[Str ''a'']"]
    by (simp add: makeMethod_def isNumber_def arg_def notImplemented_def)
  note q = all [THEN conjunct2, THEN conjunct1, rule_format, OF p]
  note facts = ok dm dp dx r c1 c2 q
  show ?thesis by (intro conjI) (rule facts)+
qed

text \<open>
  A name that only the base defines gets \<^verbatim>\<open>undefined\<close> appended to its list by
  \<^verbatim>\<open>envConcat\<close>; a call that no registration of the list matches then runs into that
  element and throws a TypeError instead of the dispatch error.
\<close>

lemma envConcat_base_only_name:
  assumes ok: "envConcat base extraMethods extraProperties = Inr e'"
    and dm: "distinct (map fst (methods base))"
    and b: "map_of (methods base) m = Some bs"
    and x: "js_get extraMethods m = Absent"
  shows "resolve e' m = Multimethod (bs @ [None])"
proof -
  let ?nm1 = "foldl (\<lambda>nm (i, regs). js_set nm i (concatExtra regs (js_get extraMethods i)))
                [] (methods base)"
  let ?nm = "foldl (\<lambda>nm (i, regs). if js_in i nm then nm else js_set nm i regs) ?nm1 extraMethods"
  let ?np = "extend (properties base) extraProperties"
  from ok have env: "environment ?nm ?np = Inr e'"
    by (simp add: envConcat_def Let_def)
  then have e': "e' = Env ?nm ?np" and f1: "find taken (map fst ?nm) = None"
    by (simp_all add: environment_Inr_iff)
  have nm1: "?nm1 = map (\<lambda>(i, regs). (i, concatExtra regs (js_get extraMethods i))) (methods base)"
    using concat_loop [of "[]" "methods base"] dm by simp
  from b x have "map_of ?nm1 m = Some (bs @ [None])"
    by (simp only: nm1 map_of_map_entries) (simp add: concatExtra_def)
  then have 1: "map_of ?nm m = Some (bs @ [None])" by (rule extra_loop_keeps)
  then have "m \<in> set (map fst ?nm)" by (rule map_of_Some_key)
  with f1 have "\<not> taken m" by (rule find_None_member)
  with 1 show ?thesis by (simp add: resolve_def e' taken_def)
qed

lemma findRegistered_hole:
  "find (\<lambda>r. predicate r args) rs = None \<Longrightarrow>
   \<exists>msg. findRegistered (map Some rs @ [None]) args = Inl (TypeError msg)"
  by (induction rs) (auto split: if_splits)

text \<open>
  C4 (amended): an exposed multimethod is not curried.  Called with fewer arguments
  than the declared parameter count of its first registered implementation, it
  dispatches at once on those arguments and invokes the first matching implementation
  with them (or throws the dispatch error); it never returns a callable awaiting the
  rest.
\<close>

theorem exposed_method_not_curried:
  assumes "resolve e m = Multimethod (map Some (r0 # rs))" and "length args < declared r0"
  shows "callMember this e m args =
           Some (case find (\<lambda>r. predicate r args) (r0 # rs) of
                   None \<Rightarrow> Inl notImplemented
                 | Some r \<Rightarrow> f r this args)"
  using assms(1) by (simp only: callMember_Multimethod makeMethod_map_Some)

theorem exposed_method_not_curried_witness:
  "resolve (Env [(''pair'', map Some [(Registration (\<lambda>args. True) (\<lambda>this args. Inr (Arr [arg args 0, arg args 1])) 2)])] [] :: (this, val, val, val) env) ''pair'' = Multimethod (map Some [(Registration (\<lambda>args. True) (\<lambda>this args. Inr (Arr [arg args 0, arg args 1])) 2)])
   \<and> length [Num 7] < declared (Registration (\<lambda>args. True) (\<lambda>this args. Inr (Arr [arg args 0, arg args 1])) 2)
   \<and> callMember ThisBilby (Env [(''pair'', map Some [(Registration (\<lambda>args. True) (\<lambda>this args. Inr (Arr [arg args 0, arg args 1])) 2)])] [] :: (this, val, val, val) env) ''pair'' [Num 7] = Some (Inr (Arr [Num 7, Undef]))"
proof -
  let ?p = "(Registration (\<lambda>args. True) (\<lambda>this args. Inr (Arr [arg args 0, arg args 1])) 2) :: (this, val, val) registration"
  have r: "resolve (Env [(''pair'', map Some [(Registration (\<lambda>args. True) (\<lambda>this args. Inr (Arr [arg args 0, arg args 1])) 2)])] [] :: (this, val, val, val) env) ''pair'' = Multimethod (map Some (?p # []))"
    by (simp add: resolve_def ownMembers_def)
  have l: "length [Num 7] < declared ?p" by simp
  have c: "callMember ThisBilby (Env [(''pair'', map Some [(Registration (\<lambda>args. True) (\<lambda>this args. Inr (Arr [arg args 0, arg args 1])) 2)])] [] :: (this, val, val, val) env) ''pair'' [Num 7] = Some (Inr (Arr [Num 7, Undef]))"
    using exposed_method_not_curried [OF r l, of ThisBilby] by (simp add: arg_def)
  from r l c show ?thesis by simp
qed

text \<open>
  C4, as stated, fails: a multimethod whose only implementation declares two
  parameters, called with one argument, runs that implementation (the second parameter
  is \<^verbatim>\<open>undefined\<close>) and returns its result, an array.
\<close>

theorem curried_method_counterexample:
  "declared (Registration (\<lambda>args. True) (\<lambda>this args. Inr (Arr [arg args 0, arg args 1])) 2) = 2
   \<and> callMember ThisBilby (Env [(''pair'', map Some [(Registration (\<lambda>args. True) (\<lambda>this args. Inr (Arr [arg args 0, arg args 1])) 2)])] [] :: (this, val, val, val) env) ''pair'' [Num 7] = Some (Inr (Arr [Num 7, Undef]))
   \<and> \<not> isFunction [Arr [Num 7, Undef]]"
  by (simp add: callMember_def resolve_def ownMembers_def makeMethod_def arg_def isFunction_def)

section \<open>Properties of tagged sums\<close>

lemma tagged_arity_mismatch:
  "length arguments \<noteq> length fields \<Longrightarrow>
   tagged name fields arguments
     = Inl (TypeError (''Expected '' @ showNat (length fields) @ '' arguments, got ''
                         @ showNat (length arguments)))"
  by (simp add: tagged_def)

lemma tagged_fields:
  assumes "length arguments = length fields" and "distinct fields"
  shows "tagged name fields arguments = Inr (Instance name fields (zip fields arguments))"
  using assms by (simp add: tagged_def copyInto_Nil)

lemma checkSupplied_None_iff:
  "checkSupplied keys dispatches = None \<longleftrightarrow> (\<forall>k \<in> set keys. js_get dispatches k \<noteq> Absent)"
  by (induction keys) (auto split: slot.splits)

lemma checkExtra_None_iff:
  "checkExtra keys constructors = None \<longleftrightarrow> (\<forall>k \<in> set keys. js_get constructors k \<noteq> Absent)"
  by (induction keys) (auto split: slot.splits)

lemma cata_missing_variant:
  assumes "k \<in> set (map fst constructors)" and "js_get dispatches k = Absent"
  shows "\<exists>e. cata inherited constructors v dispatches = Inl e"
proof -
  from assms have "checkSupplied (map fst constructors) dispatches \<noteq> None"
    by (auto simp: checkSupplied_None_iff)
  then show ?thesis by (auto simp: cata_def makeCata_def)
qed

lemma cata_unknown_key:
  assumes "k \<in> set (map fst dispatches)" and "js_get constructors k = Absent"
  shows "\<exists>e. cata inherited constructors v dispatches = Inl e"
proof -
  from assms have "checkExtra (map fst dispatches) constructors \<noteq> None"
    by (auto simp: checkExtra_None_iff)
  then show ?thesis by (auto simp: cata_def makeCata_def split: option.splits)
qed

lemma cata_exact_table:
  assumes "\<forall>k \<in> set (map fst constructors). js_get dispatches k \<noteq> Absent"
    and "\<forall>k \<in> set (map fst dispatches). js_get constructors k \<noteq> Absent"
    and "js_get dispatches (variant v) = Own h"
  shows "cata inherited constructors v dispatches
           = h v (map (\<lambda>fld. js_get (members v) fld) (fieldNames v))"
proof -
  from assms(1) have 1: "checkSupplied (map fst constructors) dispatches = None"
    by (simp only: checkSupplied_None_iff)
  from assms(2) have 2: "checkExtra (map fst dispatches) constructors = None"
    by (simp only: checkExtra_None_iff)
  show ?thesis by (simp add: cata_def makeCata_def 1 2 assms(3))
qed

text \<open>
  C5: the claim holds for tables whose keys are not inherited names (the three lemmas
  above), but not for every table.  For the sum \<^verbatim>\<open>{A: [], B: []}\<close> and the value
  \<^verbatim>\<open>A()\<close>, the table \<^verbatim>\<open>{A: f, B: g, toString: h}\<close> has a key that is no variant name,
  yet \<^verbatim>\<open>cata\<close> raises nothing and runs the entry of \<^verbatim>\<open>A\<close>: the test
  \<^verbatim>\<open>constructors[key]\<close> finds the inherited \<^verbatim>\<open>Object.prototype.toString\<close>.
\<close>

theorem cata_inherited_key_not_rejected:
  "(case js_get (taggedSum [(''A'', []), (''B'', [])]) ''A'' of
      Own constructA \<Rightarrow> constructA ([] :: val list) = Inr (Instance ''A'' [] [])
    | _ \<Rightarrow> False)
   \<and> cata inherited [(''A'', []), (''B'', [])] (Instance ''A'' [] ([] :: val object))
        [(''A'', \<lambda>this args. Inr (Str ''handler of A'')),
         (''B'', \<lambda>this args. Inr (Str ''handler of B'')),
         (''toString'', \<lambda>this args. Inr (Str ''handler of toString''))]
      = (Inr (Str ''handler of A'') :: js_error + val)"
  by (simp add: taggedSum_def tagged_def copyInto_def cata_def makeCata_def js_get_def
      objectPrototypeNames_def)

section \<open>Properties of rounding to a double\<close>

lemma ilog2_bounds_ge1:
  assumes "1 \<le> (a::rat)"
  shows "2 powi (ilog2 a) \<le> a \<and> a < 2 powi (ilog2 a + 1)"
proof -
  let ?m = "\<lfloor>a\<rfloor>"
  from assms have m: "0 < ?m" by simp
  from bitlen_bounds [OF m] have lo: "2 ^ nat (bitlen ?m - 1) \<le> ?m"
    and hi: "?m < 2 ^ nat (bitlen ?m)" by simp_all
  have b1: "1 \<le> bitlen ?m" using m by (auto simp: bitlen_alt_def)
  define k where "k = nat (bitlen ?m - 1)"
  have bk: "bitlen ?m - 1 = int k" using b1 by (simp add: k_def)
  have bk': "nat (bitlen ?m) = Suc k" using b1 by (simp add: k_def)
  have il: "ilog2 a = int k" using assms bk by (simp add: ilog2_def)
  from lo have "(2::int) ^ k \<le> ?m" by (simp add: k_def)
  then have "of_int ((2::int) ^ k) \<le> (of_int ?m :: rat)" by (simp only: of_int_le_iff)
  then have G: "(2::rat) ^ k \<le> of_int ?m" by simp
  have H: "(of_int ?m :: rat) \<le> a" by (rule of_int_floor_le)
  from G H have 1: "(2::rat) ^ k \<le> a" by (rule order_trans)
  from hi have "?m + 1 \<le> 2 ^ Suc k" by (simp add: bk')
  then have "(of_int (?m + 1) :: rat) \<le> of_int (2 ^ Suc k)" by (simp only: of_int_le_iff)
  then have E: "(of_int (?m + 1) :: rat) \<le> 2 ^ Suc k" by simp
  have F: "a < of_int (?m + 1)" by linarith
  from F E have 2: "a < (2::rat) ^ Suc k" by (rule less_le_trans)
  have "int k + 1 = int (Suc k)" by simp
  with 1 2 show ?thesis by (simp only: il power_int_of_nat)
qed

lemma ilog2_bounds_lt1:
  assumes "0 < (a::rat)" "a < 1"
  shows "2 powi (ilog2 a) \<le> a \<and> a < 2 powi (ilog2 a + 1)"
proof -
  let ?b = "1 / a"
  let ?c = "\<lceil>?b\<rceil>"
  from assms have b1: "1 < ?b" by (simp add: field_simps)
  then have c2: "2 \<le> ?c" by linarith
  then have m: "0 < ?c - 1" by simp
  from bitlen_bounds [OF m] have lo: "2 ^ nat (bitlen (?c - 1) - 1) \<le> ?c - 1"
    and hi: "?c - 1 < 2 ^ nat (bitlen (?c - 1))" by simp_all
  have j1: "1 \<le> bitlen (?c - 1)" using m by (auto simp: bitlen_alt_def)
  define k where "k = nat (bitlen (?c - 1) - 1)"
  have bk: "bitlen (?c - 1) = int (Suc k)" using j1 by (simp add: k_def)
  have nk: "nat (bitlen (?c - 1)) = Suc k" using j1 by (simp add: k_def)
  have il: "ilog2 a = - int (Suc k)" using assms bk by (simp add: ilog2_def)
  from hi have "?c \<le> 2 ^ Suc k" by (simp add: nk)
  then have "(of_int ?c :: rat) \<le> of_int (2 ^ Suc k)" by (simp only: of_int_le_iff)
  then have A: "(of_int ?c :: rat) \<le> 2 ^ Suc k" by simp
  have B: "?b \<le> of_int ?c" by (rule le_of_int_ceiling)
  from B A have "?b \<le> (2::rat) ^ Suc k" by (rule order_trans)
  with assms(1) have 1: "1 / (2::rat) ^ Suc k \<le> a" by (simp add: field_simps)
  from lo have "(2::int) ^ k \<le> ?c - 1" by (simp add: k_def)
  then have "(of_int (2 ^ k) :: rat) \<le> of_int (?c - 1)" by (simp only: of_int_le_iff)
  then have C: "(2::rat) ^ k \<le> of_int (?c - 1)" by simp
  have D: "(of_int (?c - 1) :: rat) < ?b" by linarith
  from C D have "(2::rat) ^ k < ?b" by (rule le_less_trans)
  with assms(1) have 2: "a < 1 / (2::rat) ^ k" by (simp add: field_simps)
  have e1: "(2::rat) powi (- int (Suc k)) = 1 / 2 ^ Suc k"
    by (simp only: power_int_minus_divide power_int_of_nat)
  have e2: "(2::rat) powi (- int (Suc k) + 1) = 1 / 2 ^ k"
  proof -
    have "- int (Suc k) + 1 = - int k" by simp
    then show ?thesis by (simp only: power_int_minus_divide power_int_of_nat)
  qed
  from 1 2 show ?thesis by (simp only: il e1 e2)
qed

lemma ilog2_bounds:
  assumes "0 < (a::rat)"
  shows "2 powi (ilog2 a) \<le> a" and "a < 2 powi (ilog2 a + 1)"
  using assms ilog2_bounds_ge1 [of a] ilog2_bounds_lt1 [of a] by (cases "1 \<le> a"; simp)+

lemma pow2_less_imp: "(2::rat) powi m < 2 powi n \<Longrightarrow> m < n"
proof (rule ccontr)
  assume a: "(2::rat) powi m < 2 powi n" and "\<not> m < n"
  then have "n \<le> m" by simp
  then have "(2::rat) powi n \<le> 2 powi m" by (intro power_int_increasing) simp_all
  with a show False by simp
qed

lemma ilog2_unique:
  assumes "0 < (a::rat)" "2 powi e \<le> a" "a < 2 powi (e + 1)"
  shows "ilog2 a = e"
proof -
  from ilog2_bounds(1) [OF assms(1)] assms(3) have "(2::rat) powi ilog2 a < 2 powi (e + 1)"
    by simp
  then have 1: "ilog2 a < e + 1" by (rule pow2_less_imp)
  from ilog2_bounds(2) [OF assms(1)] assms(2) have "(2::rat) powi e < 2 powi (ilog2 a + 1)"
    by simp
  then have 2: "e < ilog2 a + 1" by (rule pow2_less_imp)
  from 1 2 show ?thesis by simp
qed

lemma roundHalfEven_of_int [simp]: "roundHalfEven (of_int k) = k"
  by (simp add: roundHalfEven_def)

lemma ulp_pos: "0 < ulp v"
  by (simp add: ulp_def power_int_def)

lemma pow2_pos: "0 < (2::rat) powi k"
  by (simp add: power_int_def)

lemma pow2_nat: "0 \<le> k \<Longrightarrow> (2::rat) powi k = of_int (2 ^ nat k)"
  by (simp add: power_int_def)

lemma isDouble_0: "isDouble 0"
  by (simp add: isDouble_def roundDouble_def)

lemma isDouble_grid:
  assumes nz: "v \<noteq> 0" and grid: "v = of_int m * 2 powi g"
    and fine: "max (ilog2 \<bar>v\<bar>) (- 1022) - 52 \<le> g" and bound: "\<bar>v\<bar> < 2 powi 1024"
  shows "isDouble v"
proof -
  define E where "E = max (ilog2 \<bar>v\<bar>) (- 1022) - 52"
  define u where "u = ulp v"
  have u: "u = 2 powi E" by (simp add: ulp_def E_def u_def)
  have upos: "0 < u" by (simp add: u_def ulp_pos)
  from fine have fine': "0 \<le> g - E" by (simp add: E_def)
  have "v / u = of_int m * (2 powi g / 2 powi E)" by (subst grid) (simp add: u)
  also have "2 powi g / (2::rat) powi E = 2 powi (g - E)"
    by (simp add: power_int_diff)
  also have "(2::rat) powi (g - E) = of_int (2 ^ nat (g - E))"
    using fine' by (rule pow2_nat)
  finally have q: "v / u = of_int (m * 2 ^ nat (g - E))" by simp
  have r: "of_int (roundHalfEven (v / u)) * u = v"
  proof -
    have "of_int (roundHalfEven (v / u)) * u = (v / u) * u"
      by (simp only: q roundHalfEven_of_int)
    also have "\<dots> = v" using upos by simp
    finally show ?thesis .
  qed
  show ?thesis
    using nz bound r by (simp add: isDouble_def roundDouble_def Let_def u_def)
qed

lemma isDouble_gridD:
  assumes "isDouble v" "v \<noteq> 0"
  shows "\<exists>m. v = of_int m * 2 powi (max (ilog2 \<bar>v\<bar>) (- 1022) - 52)"
    and "\<bar>v\<bar> < 2 powi 1024"
proof -
  let ?r = "of_int (roundHalfEven (v / ulp v)) * ulp v"
  from assms have "(if 2 powi 1024 \<le> \<bar>?r\<bar> then (if v < 0 then NegInf else PosInf) else Finite ?r)
                     = Finite v"
    by (simp add: isDouble_def roundDouble_def Let_def)
  then have r: "?r = v" and b: "\<not> 2 powi 1024 \<le> \<bar>?r\<bar>"
    by (auto split: if_splits)
  from r have "v = of_int (roundHalfEven (v / ulp v)) * 2 powi (max (ilog2 \<bar>v\<bar>) (- 1022) - 52)"
    by (simp add: ulp_def)
  then show "\<exists>m. v = of_int m * 2 powi (max (ilog2 \<bar>v\<bar>) (- 1022) - 52)" ..
  from b r show "\<bar>v\<bar> < 2 powi 1024" by simp
qed

lemma ilog2_less: "0 < (a::rat) \<Longrightarrow> a < 2 powi e \<Longrightarrow> ilog2 a < e"
  using ilog2_bounds(1) [of a] pow2_less_imp [of "ilog2 a" e] by simp

lemma ilog2_ge: "0 < (a::rat) \<Longrightarrow> 2 powi e \<le> a \<Longrightarrow> e \<le> ilog2 a"
  using ilog2_bounds(2) [of a] pow2_less_imp [of e "ilog2 a + 1"] by simp

lemma pow2_53_lt: "(2::rat) ^ 53 < 2 powi 1024"
  by simp

lemma isDouble_of_int:
  assumes "\<bar>k\<bar> \<le> 2 ^ 53"
  shows "isDouble (of_int k)"
proof (cases "k = 0")
  case True
  then show ?thesis by (simp add: isDouble_0)
next
  case False
  let ?v = "of_int k :: rat"
  have nz: "?v \<noteq> 0" using False by simp
  have a1: "1 \<le> \<bar>?v\<bar>" using False by (simp flip: of_int_abs)
  have pos: "0 < \<bar>?v\<bar>" using nz by simp
  from assms have "(of_int \<bar>k\<bar> :: rat) \<le> of_int (2 ^ 53)" by (simp only: of_int_le_iff)
  then have le: "\<bar>?v\<bar> \<le> 2 ^ 53" by simp
  then have bound: "\<bar>?v\<bar> < 2 powi 1024" using pow2_53_lt by linarith
  have e0: "0 \<le> ilog2 \<bar>?v\<bar>" using ilog2_ge [OF pos, of 0] a1 by simp
  show ?thesis
  proof (cases "\<bar>?v\<bar> = 2 ^ 53")
    case True
    have "ilog2 \<bar>?v\<bar> = 53"
      using pos by (rule ilog2_unique) (simp_all add: True)
    then have E: "max (ilog2 \<bar>?v\<bar>) (- 1022) - 52 = 1" by simp
    from True have "?v = 2 ^ 53 \<or> ?v = - (2 ^ 53)" by (auto simp: abs_if split: if_splits)
    then obtain m :: int where "?v = of_int m * 2 powi 1"
    proof
      assume "?v = 2 ^ 53"
      then have "?v = of_int (2 ^ 52) * 2 powi 1" by simp
      then show ?thesis by (rule that)
    next
      assume "?v = - (2 ^ 53)"
      then have "?v = of_int (- (2 ^ 52)) * 2 powi 1" by simp
      then show ?thesis by (rule that)
    qed
    then show ?thesis using nz bound E by (intro isDouble_grid [where g = 1 and m = m]) simp_all
  next
    case ne: False
    with le have "\<bar>?v\<bar> < 2 powi 53" by simp
    from ilog2_less [OF pos this] have "ilog2 \<bar>?v\<bar> \<le> 52" by simp
    with e0 have E: "max (ilog2 \<bar>?v\<bar>) (- 1022) - 52 \<le> 0" by simp
    have g: "?v = of_int k * 2 powi 0" by simp
    show ?thesis using nz g E bound by (rule isDouble_grid)
  qed
qed

lemma pow2_succ: "(2::rat) powi (k + 1) = 2 * 2 powi k"
  by (simp add: power_int_add)

lemma pow2_pred: "(2::rat) powi (k - 1) = 2 powi k / 2"
  by (simp add: power_int_diff)

lemma isDouble_half:
  assumes d: "isDouble x" and big: "1 \<le> \<bar>x\<bar>"
  shows "isDouble (x / 2)"
proof -
  from big have nz: "x \<noteq> 0" by auto
  then have pos: "0 < \<bar>x\<bar>" by simp
  define e where "e = ilog2 \<bar>x\<bar>"
  have e0: "0 \<le> e" unfolding e_def using ilog2_ge [OF pos, of 0] big by simp
  then have E: "max (ilog2 \<bar>x\<bar>) (- 1022) = e" by (simp add: e_def)
  from isDouble_gridD [OF d nz] obtain m where m: "x = of_int m * 2 powi (e - 52)"
    and b: "\<bar>x\<bar> < 2 powi 1024" by (auto simp: E)
  have lo: "2 powi e \<le> \<bar>x\<bar>" and hi: "\<bar>x\<bar> < 2 powi (e + 1)"
    unfolding e_def using ilog2_bounds [OF pos] by simp_all
  have pos2: "0 < \<bar>x / 2\<bar>" using nz by simp
  have "ilog2 \<bar>x / 2\<bar> = e - 1"
  proof (rule ilog2_unique [OF pos2])
    show "2 powi (e - 1) \<le> \<bar>x / 2\<bar>" using lo by (simp add: pow2_pred)
    show "\<bar>x / 2\<bar> < 2 powi (e - 1 + 1)" using hi by (simp add: pow2_succ)
  qed
  then have E2: "max (ilog2 \<bar>x / 2\<bar>) (- 1022) - 52 = e - 53" using e0 by simp
  have g: "x / 2 = of_int m * 2 powi (e - 53)"
  proof -
    have "e - 53 = (e - 52) - 1" by simp
    then have "(2::rat) powi (e - 53) = 2 powi (e - 52) / 2" by (simp only: pow2_pred)
    then show ?thesis by (simp add: m)
  qed
  have b2: "\<bar>x / 2\<bar> < 2 powi 1024" using b by simp
  show ?thesis
    using nz g E2 b2 by (intro isDouble_grid [where m = m and g = "e - 53"]) simp_all
qed

lemma roundHalfEven_near: "\<bar>of_int (roundHalfEven q) - q\<bar> \<le> 1 / 2"
proof -
  define fl where "fl = \<lfloor>q\<rfloor>"
  define d where "d = q - of_int fl"
  have d0: "0 \<le> d" and d1: "d < 1" unfolding d_def fl_def by linarith+
  have q: "q = of_int fl + d" by (simp add: d_def)
  have r: "roundHalfEven q =
             (if d < 1 / 2 then fl else if 1 / 2 < d then fl + 1 else if even fl then fl else fl + 1)"
    by (simp add: roundHalfEven_def Let_def fl_def d_def)
  have down: "\<bar>of_int fl - q\<bar> = d" using d0 by (simp add: q)
  have up: "\<bar>of_int (fl + 1) - q\<bar> = 1 - d" using d1 by (simp add: q)
  consider "d < 1 / 2" | "1 / 2 < d" | "d = 1 / 2" by linarith
  then show ?thesis
  proof cases
    case 1
    then have "roundHalfEven q = fl" by (simp add: r)
    with 1 down show ?thesis by simp
  next
    case 2
    then have "roundHalfEven q = fl + 1" by (simp add: r)
    with 2 up show ?thesis by simp
  next
    case 3
    then have "roundHalfEven q = fl \<or> roundHalfEven q = fl + 1" by (simp add: r)
    with 3 down up show ?thesis by auto
  qed
qed

text \<open>Halving a number of magnitude below one and rounding stays below one.\<close>

lemma roundDouble_small:
  assumes "\<bar>v\<bar> < 1 / 2"
  shows "\<exists>r. roundDouble v = Finite r \<and> \<bar>r\<bar> < 1"
proof (cases "v = 0")
  case True
  then show ?thesis by (simp add: roundDouble_def)
next
  case False
  then have pos: "0 < \<bar>v\<bar>" by simp
  define u where "u = ulp v"
  define q where "q = v / u"
  define r where "r = of_int (roundHalfEven q) * u"
  have upos: "0 < u" by (simp add: u_def ulp_pos)
  have "\<bar>v\<bar> < 2 powi (- 1)" using assms by (simp add: power_int_minus_divide)
  from ilog2_less [OF pos this] have "max (ilog2 \<bar>v\<bar>) (- 1022) - 52 \<le> - 54" by simp
  then have "u \<le> 2 powi (- 54)"
    unfolding u_def ulp_def by (intro power_int_increasing) simp_all
  also have "(2::rat) powi (- 54) \<le> 1 / 4" by (simp add: power_int_minus_divide)
  finally have u4: "u \<le> 1 / 4" .
  have "\<bar>r - v\<bar> = \<bar>of_int (roundHalfEven q) - q\<bar> * u"
  proof -
    have "r - v = (of_int (roundHalfEven q) - q) * u"
      using upos by (simp add: r_def q_def algebra_simps)
    then show ?thesis using upos by (simp add: abs_mult)
  qed
  also have "\<dots> \<le> (1 / 2) * u"
    using roundHalfEven_near [of q] upos by (intro mult_right_mono) simp_all
  finally have "\<bar>r - v\<bar> \<le> u / 2" by simp
  with u4 assms have r1: "\<bar>r\<bar> < 1" by linarith
  then have "\<not> 2 powi 1024 \<le> \<bar>r\<bar>" by simp
  then have "roundDouble v = Finite r"
    using False by (simp add: roundDouble_def Let_def r_def q_def u_def)
  with r1 show ?thesis by blast
qed

text \<open>\<open>trn\<close> is rounding toward zero, \<^verbatim>\<open>x < 0 ? Math.ceil(x) : Math.floor(x)\<close>.\<close>

lemma trunc_small: "\<bar>r\<bar> < 1 \<Longrightarrow> (if (r::rat) < 0 then \<lceil>r\<rceil> else \<lfloor>r\<rfloor>) = 0"
  by (auto simp: ceiling_eq_iff floor_eq_iff)

lemma numTrunc_numHalve:
  assumes "isDouble x"
  shows "numTrunc (numHalve (Finite x))
           = Finite (of_int (if x < 0 then \<lceil>x / 2\<rceil> else \<lfloor>x / 2\<rfloor>))"
proof (cases "1 \<le> \<bar>x\<bar>")
  case True
  from isDouble_half [OF assms True] have "roundDouble (x / 2) = Finite (x / 2)"
    by (simp add: isDouble_def)
  then show ?thesis by simp
next
  case False
  then have s: "\<bar>x / 2\<bar> < 1 / 2" by simp
  from roundDouble_small [OF s] obtain r where r: "roundDouble (x / 2) = Finite r" "\<bar>r\<bar> < 1"
    by blast
  have 1: "(if r < 0 then \<lceil>r\<rceil> else \<lfloor>r\<rfloor>) = 0" using r(2) by (rule trunc_small)
  have "\<bar>x / 2\<bar> < 1" using s by simp
  then have "(if x / 2 < 0 then \<lceil>x / 2\<rceil> else \<lfloor>x / 2\<rfloor>) = 0" by (rule trunc_small)
  then have 2: "(if x < 0 then \<lceil>x / 2\<rceil> else \<lfloor>x / 2\<rfloor>) = 0" by simp
  show ?thesis by (simp only: numHalve.simps r(1) numTrunc.simps 1 2)
qed

lemma floor_half: "\<lfloor>(a::rat) / 2\<rfloor> = \<lfloor>a\<rfloor> div 2"
proof (rule floor_unique)
  define k where "k = \<lfloor>a\<rfloor>"
  have a: "of_int k \<le> a" "a < of_int k + 1" unfolding k_def by linarith+
  have k: "k = 2 * (k div 2) + k mod 2" by simp
  have m: "0 \<le> k mod 2" "k mod 2 \<le> 1" by simp_all
  have "2 * (k div 2) \<le> k" using k m by linarith
  then have "(of_int (2 * (k div 2)) :: rat) \<le> of_int k" by (simp only: of_int_le_iff)
  with a(1) show "of_int (k div 2) \<le> a / 2" by simp
  have "k + 1 \<le> 2 * (k div 2) + 2" using k m by linarith
  then have "(of_int (k + 1) :: rat) \<le> of_int (2 * (k div 2) + 2)" by (simp only: of_int_le_iff)
  with a(2) show "a / 2 < of_int (k div 2) + 1" by simp
qed

text \<open>Rounding toward zero, as an integer.\<close>

lemma trn_half:
  "(if (x::rat) < 0 then \<lceil>x / 2\<rceil> else \<lfloor>x / 2\<rfloor>)
     = (if x < 0 then - int (nat \<lfloor>\<bar>x\<bar>\<rfloor> div 2) else int (nat \<lfloor>\<bar>x\<bar>\<rfloor> div 2))"
proof (cases "x < 0")
  case True
  have "\<lceil>x / 2\<rceil> = - \<lfloor>(- x) / 2\<rfloor>" by (simp add: ceiling_def)
  also have "\<dots> = - (\<lfloor>- x\<rfloor> div 2)" by (simp only: floor_half)
  also have "\<lfloor>- x\<rfloor> = int (nat \<lfloor>\<bar>x\<bar>\<rfloor>)" using True by simp
  finally show ?thesis using True by (simp add: zdiv_int)
next
  case False
  then have "\<lfloor>x\<rfloor> = int (nat \<lfloor>\<bar>x\<bar>\<rfloor>)" by simp
  then show ?thesis using False by (simp add: floor_half zdiv_int)
qed

lemma isDouble_integral_big:
  assumes d: "isDouble v" and big: "2 ^ 52 \<le> \<bar>v\<bar>"
  shows "\<exists>k. v = of_int k"
proof -
  from big have nz: "v \<noteq> 0" by auto
  then have pos: "0 < \<bar>v\<bar>" by simp
  have "(2::rat) powi 52 \<le> \<bar>v\<bar>" using big by simp
  from ilog2_ge [OF pos this] have e: "0 \<le> max (ilog2 \<bar>v\<bar>) (- 1022) - 52" by simp
  from isDouble_gridD(1) [OF d nz] obtain m
    where "v = of_int m * 2 powi (max (ilog2 \<bar>v\<bar>) (- 1022) - 52)" by blast
  then have "v = of_int (m * 2 ^ nat (max (ilog2 \<bar>v\<bar>) (- 1022) - 52))"
    by (simp only: pow2_nat [OF e] of_int_mult)
  then show ?thesis ..
qed

lemma trn_abs_le: "\<bar>(if (v::rat) < 0 then \<lceil>v\<rceil> else \<lfloor>v\<rfloor>)\<bar> \<le> \<lfloor>\<bar>v\<bar>\<rfloor>"
  by (auto simp: ceiling_def abs_if)

lemma isDouble_trn:
  assumes d: "isDouble v"
  shows "isDouble (of_int (if v < 0 then \<lceil>v\<rceil> else \<lfloor>v\<rfloor>))"
proof (cases "\<bar>v\<bar> \<le> 2 ^ 53")
  case True
  then have "\<lfloor>\<bar>v\<bar>\<rfloor> \<le> 2 ^ 53" by (simp add: floor_le_iff)
  with trn_abs_le [of v] have "\<bar>(if v < 0 then \<lceil>v\<rceil> else \<lfloor>v\<rfloor>)\<bar> \<le> 2 ^ 53" by linarith
  then show ?thesis by (rule isDouble_of_int)
next
  case False
  then have "2 ^ 52 \<le> \<bar>v\<bar>" by simp
  from isDouble_integral_big [OF d this] obtain k where k: "v = of_int k" ..
  then have "(if v < 0 then \<lceil>v\<rceil> else \<lfloor>v\<rfloor>) = k" by simp
  with d k show ?thesis by simp
qed

lemma isDouble_trn_half:
  assumes d: "isDouble x"
  shows "isDouble (of_int (if x < 0 then \<lceil>x / 2\<rceil> else \<lfloor>x / 2\<rfloor>))"
proof (cases "1 \<le> \<bar>x\<bar>")
  case True
  from isDouble_trn [OF isDouble_half [OF d True]] show ?thesis by simp
next
  case False
  then have "\<bar>x / 2\<bar> < 1" by simp
  then have "(if x / 2 < 0 then \<lceil>x / 2\<rceil> else \<lfloor>x / 2\<rfloor>) = 0" by (rule trunc_small)
  then have "(if x < 0 then \<lceil>x / 2\<rceil> else \<lfloor>x / 2\<rfloor>) = 0" by simp
  then show ?thesis by (simp only: of_int_0 isDouble_0)
qed

text \<open>
  Up to \<open>2 ^ 53\<close> the subtraction \<^verbatim>\<open>n - x\<close> of the loop is exact: the difference lies on
  the grid of \<open>n\<close> and is smaller in magnitude.
\<close>

lemma isDouble_sub:
  assumes d: "isDouble n" and le: "\<bar>n\<bar> \<le> 2 ^ 53"
    and h0: "0 < h" and h2: "2 * of_nat h \<le> \<bar>n\<bar>"
    and c: "c = (if n < 0 then n + of_nat h else n - of_nat h)"
  shows "isDouble c"
proof -
  have h1: "(1::rat) \<le> of_nat h" using h0 by simp
  have ac: "\<bar>c\<bar> = \<bar>n\<bar> - of_nat h" using h2 h1 by (auto simp: c abs_if)
  then have cpos: "0 < \<bar>c\<bar>" and clt: "\<bar>c\<bar> < \<bar>n\<bar>" using h2 h1 by linarith+
  then have cnz: "c \<noteq> 0" by auto
  have nz: "n \<noteq> 0" using h2 h1 by auto
  have npos: "0 < \<bar>n\<bar>" using nz by simp
  have bound: "\<bar>c\<bar> < 2 powi 1024" using clt le pow2_53_lt by linarith
  show ?thesis
  proof (cases "\<bar>n\<bar> = 2 ^ 53")
    case True
    then have "n = 2 ^ 53 \<or> n = - (2 ^ 53)"
      by (auto simp: abs_if split: if_splits)
    then obtain k :: int where k: "n = of_int k" "\<bar>k\<bar> = 2 ^ 53"
    proof
      assume "n = 2 ^ 53"
      then have "n = of_int (2 ^ 53)" "\<bar>(2 ^ 53 :: int)\<bar> = 2 ^ 53" by simp_all
      then show ?thesis by (rule that)
    next
      assume "n = - (2 ^ 53)"
      then have "n = of_int (- (2 ^ 53))" "\<bar>(- (2 ^ 53) :: int)\<bar> = 2 ^ 53" by simp_all
      then show ?thesis by (rule that)
    qed
    define j where "j = (if k < 0 then k + int h else k - int h)"
    have cj: "c = of_int j" using k(1) by (auto simp: c j_def)
    have "(of_int \<bar>j\<bar> :: rat) = \<bar>c\<bar>" by (simp add: cj)
    also have "\<dots> \<le> 2 ^ 53" using clt le by linarith
    also have "(2::rat) ^ 53 = of_int (2 ^ 53)" by simp
    finally have "\<bar>j\<bar> \<le> 2 ^ 53" by (simp only: of_int_le_iff)
    then show ?thesis unfolding cj by (rule isDouble_of_int)
  next
    case False
    with le have "\<bar>n\<bar> < 2 powi 53" by simp
    from ilog2_less [OF npos this] have e52: "ilog2 \<bar>n\<bar> \<le> 52" by simp
    have "(2::rat) powi 1 \<le> \<bar>n\<bar>" using h2 h1 by simp
    from ilog2_ge [OF npos this] have e1: "1 \<le> ilog2 \<bar>n\<bar>" .
    define e where "e = ilog2 \<bar>n\<bar>"
    have E: "max (ilog2 \<bar>n\<bar>) (- 1022) - 52 = e - 52" using e1 by (simp add: e_def)
    from isDouble_gridD(1) [OF d nz] obtain m where m: "n = of_int m * 2 powi (e - 52)"
      by (auto simp: E)
    have p: "(2::rat) powi (52 - e) = of_int (2 ^ nat (52 - e))"
      using e52 by (intro pow2_nat) (simp add: e_def)
    have one: "(2::rat) powi (52 - e) * 2 powi (e - 52) = 1"
    proof -
      have "52 - e = - (e - 52)" by simp
      then have "(2::rat) powi (52 - e) = inverse (2 powi (e - 52))"
        by (simp only: power_int_minus)
      then show ?thesis using pow2_pos [of "e - 52"] by simp
    qed
    have hh: "(of_nat h :: rat) = of_int (int h * 2 ^ nat (52 - e)) * 2 powi (e - 52)"
    proof -
      have "of_int (int h * 2 ^ nat (52 - e)) * (2::rat) powi (e - 52)
              = of_nat h * (2 powi (52 - e) * 2 powi (e - 52))"
        by (simp add: p)
      then show ?thesis by (simp only: one)
    qed
    define j where "j = (if n < 0 then m + int h * 2 ^ nat (52 - e) else m - int h * 2 ^ nat (52 - e))"
    have g: "c = of_int j * 2 powi (e - 52)"
    proof (cases "n < 0")
      case True
      then have "c = n + of_nat h" by (simp add: c)
      also have "\<dots> = of_int m * 2 powi (e - 52)
                     + of_int (int h * 2 ^ nat (52 - e)) * 2 powi (e - 52)"
        using m hh by simp
      also have "\<dots> = of_int j * 2 powi (e - 52)"
        using True by (simp add: j_def algebra_simps)
      finally show ?thesis .
    next
      case False
      then have "c = n - of_nat h" by (simp add: c)
      also have "\<dots> = of_int m * 2 powi (e - 52)
                     - of_int (int h * 2 ^ nat (52 - e)) * 2 powi (e - 52)"
        using m hh by simp
      also have "\<dots> = of_int j * 2 powi (e - 52)"
        using False by (simp add: j_def algebra_simps)
      finally show ?thesis .
    qed
    have "\<bar>c\<bar> < 2 powi (e + 1)"
      using clt ilog2_bounds(2) [OF npos] by (simp add: e_def)
    from ilog2_less [OF cpos this] have "ilog2 \<bar>c\<bar> \<le> e" by simp
    with e1 have fine: "max (ilog2 \<bar>c\<bar>) (- 1022) - 52 \<le> e - 52" by (simp add: e_def)
    show ?thesis using cnz g fine bound by (rule isDouble_grid)
  qed
qed

section \<open>Properties of equal\<close>

lemma equal_dispatch:
  "makeMethod (equalRegs ext) ThisBilby [a, b] = equal a b"
  by (cases a)
    (simp_all add: makeMethod_def equalRegs_def isBoolean_def isNumber_def isString_def
      isArray_def arg_def strictEqualsImpl_def equalArrayImpl_def notImplemented_def)

lemma equalFold_min:
  "equalFold acc xs ys = equalFold acc (take (length ys) xs) (take (length xs) ys)"
proof (induction xs arbitrary: acc ys)
  case Nil
  then show ?case by simp
next
  case (Cons x xs)
  show ?case
  proof (cases ys)
    case Nil
    then show ?thesis by simp
  next
    case (Cons y ys')
    show ?thesis
    proof (cases "truthy acc")
      case True
      then show ?thesis
        using Cons.IH [of _ ys'] by (simp add: Cons split: sum.splits)
    next
      case False
      then show ?thesis
        using Cons.IH [of acc ys'] by (simp add: Cons)
    qed
  qed
qed

lemma equal_returns_boolean:
  "equal x y = Inr r \<Longrightarrow> \<exists>b. r = Bool b"
  "equalFold acc xs ys = Inr r \<Longrightarrow> \<exists>c. acc = Bool c \<Longrightarrow> \<exists>b. r = Bool b"
proof (induction x y and acc xs ys arbitrary: r and r rule: equal_equalFold.induct)
  case (4 xs b)
  then show ?case by (auto split: sum.splits)
next
  case (17 acc x xs y ys)
  show ?case
  proof (cases "truthy acc")
    case True
    with "17.prems" obtain q where q: "equal x y = Inr q" and f: "equalFold q xs ys = Inr r"
      by (auto split: sum.splits)
    from "17.IH"(1) [OF True q] have "\<exists>c. q = Bool c" .
    with "17.IH"(2) [OF True q f] show ?thesis by simp
  next
    case False
    with "17.prems" "17.IH"(3) show ?thesis by simp
  qed
qed auto

lemma equalFold_false: "equalFold (Bool False) xs ys = Inr (Bool False)"
proof (induction xs arbitrary: ys)
  case Nil
  then show ?case by simp
next
  case (Cons x xs)
  then show ?case by (cases ys) simp_all
qed

lemma equalFold_all_true:
  "\<forall>i < min (length xs) (length ys). equal (xs ! i) (ys ! i) = Inr (Bool True) \<Longrightarrow>
   equalFold (Bool True) xs ys = Inr (Bool True)"
proof (induction xs arbitrary: ys)
  case Nil
  then show ?case by simp
next
  case (Cons x xs)
  show ?case
  proof (cases ys)
    case Nil
    then show ?thesis by simp
  next
    case (Cons y ys')
    from Cons.prems [rule_format, of 0] have h: "equal x y = Inr (Bool True)"
      by (simp add: Cons)
    have t: "\<forall>i < min (length xs) (length ys'). equal (xs ! i) (ys' ! i) = Inr (Bool True)"
    proof (intro allI impI)
      fix i assume "i < min (length xs) (length ys')"
      with Cons.prems [rule_format, of "Suc i"] show "equal (xs ! i) (ys' ! i) = Inr (Bool True)"
        by (simp add: Cons)
    qed
    from Cons.IH [OF t] h show ?thesis by (simp add: Cons)
  qed
qed

lemma equalFold_first_mismatch:
  "i < length xs \<Longrightarrow> i < length ys \<Longrightarrow>
   \<forall>j < i. equal (xs ! j) (ys ! j) = Inr (Bool True) \<Longrightarrow>
   equal (xs ! i) (ys ! i) \<noteq> Inr (Bool True) \<Longrightarrow>
   equalFold (Bool True) xs ys = equal (xs ! i) (ys ! i)"
proof (induction xs arbitrary: ys i)
  case Nil
  then show ?case by simp
next
  case (Cons x xs)
  from Cons.prems(2) obtain y ys' where ys: "ys = y # ys'" by (cases ys) auto
  show ?case
  proof (cases i)
    case 0
    with Cons.prems(4) ys have ne: "equal x y \<noteq> Inr (Bool True)" by simp
    show ?thesis
    proof (cases "equal x y")
      case (Inl e)
      then show ?thesis by (simp add: ys 0)
    next
      case (Inr r)
      with equal_returns_boolean(1) [OF Inr] ne have "r = Bool False" by auto
      with Inr show ?thesis by (simp add: ys 0 equalFold_false)
    qed
  next
    case (Suc k)
    from Cons.prems(3) [rule_format, of 0] have h: "equal x y = Inr (Bool True)"
      by (simp add: Suc ys)
    have t: "\<forall>j < k. equal (xs ! j) (ys' ! j) = Inr (Bool True)"
    proof (intro allI impI)
      fix j assume "j < k"
      with Cons.prems(3) [rule_format, of "Suc j"] show "equal (xs ! j) (ys' ! j) = Inr (Bool True)"
        by (simp add: Suc ys)
    qed
    from Cons.prems Suc ys have "k < length xs" "k < length ys'"
      "equal (xs ! k) (ys' ! k) \<noteq> Inr (Bool True)" by auto
    from Cons.IH [OF this(1,2) t this(3)] h show ?thesis by (simp add: ys Suc)
  qed
qed

text \<open>
  C7: \<^verbatim>\<open>equal\<close> on two arrays compares the pairs at the indices below
  \<open>min (length a) (length b)\<close> in order, by \<^verbatim>\<open>equal\<close> itself: it is true when every
  such pair is equal, and otherwise it is what the first pair that is not equal
  gives (\<^verbatim>\<open>false\<close>, or the exception of that comparison).  It gives what it gives on
  the two arrays cut to that length, so the trailing elements of the longer array are
  never compared; hence, when \<open>a\<close> is a proper prefix of \<open>b\<close> and \<^verbatim>\<open>equal\<close> is true of
  each pair of the shared prefix, \<^verbatim>\<open>equal(a, b)\<close> is true.
\<close>

theorem equal_arrays_compare_shorter_length:
  "makeMethod (equalRegs ext) ThisBilby [Arr a, Arr b]
     = makeMethod (equalRegs ext) ThisBilby
         [Arr (take (min (length a) (length b)) a), Arr (take (min (length a) (length b)) b)]
   \<and> (strict_prefix a b \<and> (\<forall>i < length a. equal (a ! i) (b ! i) = Inr (Bool True))
        \<longrightarrow> makeMethod (equalRegs ext) ThisBilby [Arr a, Arr b] = Inr (Bool True))
   \<and> ((\<forall>i < min (length a) (length b). equal (a ! i) (b ! i) = Inr (Bool True))
        \<longrightarrow> makeMethod (equalRegs ext) ThisBilby [Arr a, Arr b] = Inr (Bool True))
   \<and> (\<forall>i < min (length a) (length b).
         (\<forall>j < i. equal (a ! j) (b ! j) = Inr (Bool True))
         \<and> equal (a ! i) (b ! i) \<noteq> Inr (Bool True)
        \<longrightarrow> makeMethod (equalRegs ext) ThisBilby [Arr a, Arr b] = equal (a ! i) (b ! i))
   \<and> (\<forall>i < min (length a) (length b).
         makeMethod (equalRegs ext) ThisBilby [a ! i, b ! i] = equal (a ! i) (b ! i))"
proof -
  let ?n = "min (length a) (length b)"
  have "equalFold (Bool True) a b = equalFold (Bool True) (take (length b) a) (take (length a) b)"
    by (rule equalFold_min)
  also have "\<dots> = equalFold (Bool True) (take ?n a) (take ?n b)"
    by (simp add: min_def)
  finally have 1: "equal (Arr a) (Arr b) = equal (Arr (take ?n a)) (Arr (take ?n b))"
    by simp
  have 3: "equal (Arr a) (Arr b) = Inr (Bool True)"
    if "\<forall>i < ?n. equal (a ! i) (b ! i) = Inr (Bool True)"
    using that by (simp add: equalFold_all_true)
  have 2: "equal (Arr a) (Arr b) = Inr (Bool True)"
    if p: "strict_prefix a b" and e: "\<forall>i < length a. equal (a ! i) (b ! i) = Inr (Bool True)"
  proof -
    from p have "length a \<le> length b" by (auto simp: strict_prefix_def prefix_def)
    with e have "\<forall>i < ?n. equal (a ! i) (b ! i) = Inr (Bool True)" by simp
    then show ?thesis by (rule 3)
  qed
  have 4: "equal (Arr a) (Arr b) = equal (a ! i) (b ! i)"
    if "i < ?n" "\<forall>j < i. equal (a ! j) (b ! j) = Inr (Bool True)"
      "equal (a ! i) (b ! i) \<noteq> Inr (Bool True)" for i
    using that by (simp add: equalFold_first_mismatch)
  from 1 2 3 4 show ?thesis by (simp only: equal_dispatch) blast
qed

theorem equal_arrays_compare_shorter_length_witness:
  "strict_prefix [Num 1, Str ''x''] [Num 1, Str ''x'', Bool False]
   \<and> equal (Num 1) (Num 1) = Inr (Bool True)
   \<and> equal (Str ''x'') (Str ''x'') = Inr (Bool True)
   \<and> makeMethod (equalRegs (\<lambda>name this args. Inr Undef)) ThisBilby
         [Arr [Num 1, Str ''x''], Arr [Num 1, Str ''x'', Bool False]] = Inr (Bool True)
   \<and> equal (Num 2) (Num 3) = Inr (Bool False)
   \<and> makeMethod (equalRegs (\<lambda>name this args. Inr Undef)) ThisBilby
         [Arr [Num 1, Num 2, Num 5], Arr [Num 1, Num 3, Num 5, Num 7]] = Inr (Bool False)"
proof -
  let ?a = "[Num 1, Str ''x'']"
  let ?b = "[Num 1, Str ''x'', Bool False]"
  let ?c = "[Num 1, Num 2, Num 5]"
  let ?d = "[Num 1, Num 3, Num 5, Num 7]"
  have p: "strict_prefix ?a ?b" by (simp add: strict_prefix_def)
  have e1: "equal (Num 1) (Num 1) = Inr (Bool True)" by (simp add: strictEquals_def)
  have e2: "equal (Str ''x'') (Str ''x'') = Inr (Bool True)" by (simp add: strictEquals_def)
  have e3: "equal (Num 2) (Num 3) = Inr (Bool False)" by (simp add: strictEquals_def)
  have e: "\<forall>i < length ?a. equal (?a ! i) (?b ! i) = Inr (Bool True)"
    by (simp add: less_Suc_eq nth_Cons' strictEquals_def)
  have pe: "strict_prefix ?a ?b \<and> (\<forall>i < length ?a. equal (?a ! i) (?b ! i) = Inr (Bool True))"
    using p e by (rule conjI)
  note c = equal_arrays_compare_shorter_length
             [of "\<lambda>name this args. Inr Undef" ?a ?b, THEN conjunct2, THEN conjunct1,
              rule_format, OF pe]
  have i: "1 < min (length ?c) (length ?d)" by simp
  have m: "(\<forall>j < 1. equal (?c ! j) (?d ! j) = Inr (Bool True))
           \<and> equal (?c ! 1) (?d ! 1) \<noteq> Inr (Bool True)"
    by (simp add: strictEquals_def)
  have "makeMethod (equalRegs (\<lambda>name this args. Inr Undef)) ThisBilby [Arr ?c, Arr ?d]
          = equal (?c ! 1) (?d ! 1)"
    using equal_arrays_compare_shorter_length
             [of "\<lambda>name this args. Inr Undef" ?c ?d, THEN conjunct2, THEN conjunct2,
              THEN conjunct2, THEN conjunct1, rule_format, OF i m] .
  then have f: "makeMethod (equalRegs (\<lambda>name this args. Inr Undef)) ThisBilby [Arr ?c, Arr ?d]
          = Inr (Bool False)"
    by (simp add: strictEquals_def)
  note facts = p e1 e2 c e3 f
  show ?thesis by (intro conjI) (rule facts)+
qed

section \<open>Properties of shrink\<close>

lemma halvingsNat_bounds: "h \<in> set (halvingsNat m) \<Longrightarrow> 0 < h \<and> 2 * h \<le> m"
proof (induction m arbitrary: h rule: halvingsNat.induct)
  case (1 x)
  show ?case
  proof (cases "x div 2 = 0")
    case True
    with "1.prems" show ?thesis by (simp add: halvingsNat.simps [of x])
  next
    case False
    with "1.prems" have "h = x div 2 \<or> h \<in> set (halvingsNat (x div 2))"
      by (simp add: halvingsNat.simps [of x])
    then show ?thesis
    proof
      assume "h = x div 2"
      with False show ?thesis by simp
    next
      assume "h \<in> set (halvingsNat (x div 2))"
      from "1.IH" [OF False this] have "0 < h \<and> 2 * h \<le> x div 2" .
      moreover have "x div 2 \<le> x" by simp
      ultimately show ?thesis by linarith
    qed
  qed
qed

lemma halvingsNat_0: "halvingsNat 0 = []"
  by (simp add: halvingsNat.simps [of 0])

lemma halvingsNat_step:
  "x div 2 \<noteq> 0 \<Longrightarrow> halvingsNat x = (x div 2) # halvingsNat (x div 2)"
  by (simp add: halvingsNat.simps [of x])

lemma halvingsNat_last: "x div 2 = 0 \<Longrightarrow> halvingsNat x = []"
  by (simp add: halvingsNat.simps [of x])

lemma shrinkNumberLoop_falsy:
  "\<not> numTruthy x \<Longrightarrow> shrinkNumberLoop n x accum = Some accum"
  by (subst shrinkNumberLoop.simps) simp

lemma shrinkNumberLoop_step:
  "numTruthy x \<Longrightarrow>
   shrinkNumberLoop n x accum =
     shrinkNumberLoop n (numTrunc (numHalve x))
       (if numTruthy (numTrunc (numHalve x))
        then accum @ [numSubtract n (numTrunc (numHalve x))] else accum)"
  by (subst shrinkNumberLoop.simps) simp

lemma shrinkNumberLoop_closed:
  "isDouble x \<Longrightarrow>
   shrinkNumberLoop n (Finite x) accum =
     Some (accum @ map (\<lambda>h. numSubtract n (Finite (if x < 0 then - of_nat h else of_nat h)))
                     (halvingsNat (nat \<lfloor>\<bar>x\<bar>\<rfloor>)))"
proof (induction "nat \<lfloor>\<bar>x\<bar>\<rfloor>" arbitrary: x accum rule: less_induct)
  case less
  define M where "M = nat \<lfloor>\<bar>x\<bar>\<rfloor>"
  define t where "t = (if x < 0 then - int (M div 2) else int (M div 2))"
  have step: "numTrunc (numHalve (Finite x)) = Finite (of_int t)"
    using numTrunc_numHalve [OF less.prems] by (simp only: trn_half t_def M_def)
  have dt: "isDouble (of_int t)"
    using isDouble_trn_half [OF less.prems] by (simp only: trn_half t_def M_def)
  show ?case
  proof (cases "x = 0")
    case True
    then show ?thesis by (simp add: shrinkNumberLoop_falsy halvingsNat_0)
  next
    case nz: False
    then have tr: "numTruthy (Finite x)" by simp
    show ?thesis
    proof (cases "M div 2 = 0")
      case True
      then have "t = 0" by (simp add: t_def)
      have "shrinkNumberLoop n (Finite x) accum =
              shrinkNumberLoop n (Finite (of_int t))
                (if numTruthy (Finite (of_int t))
                 then accum @ [numSubtract n (Finite (of_int t))] else accum)"
        using shrinkNumberLoop_step [OF tr, of n accum] by (simp only: step)
      with \<open>t = 0\<close> have "shrinkNumberLoop n (Finite x) accum = Some accum"
        by (simp add: shrinkNumberLoop_falsy)
      then show ?thesis using True by (simp add: halvingsNat_last M_def [symmetric])
    next
      case False
      then have tnz: "t \<noteq> 0" by (simp add: t_def)
      have m': "nat \<lfloor>\<bar>of_int t :: rat\<bar>\<rfloor> = M div 2"
        by (simp add: t_def flip: of_int_abs)
      have lt: "nat \<lfloor>\<bar>of_int t :: rat\<bar>\<rfloor> < nat \<lfloor>\<bar>x\<bar>\<rfloor>"
        using False by (simp add: m' M_def [symmetric])
      have sg: "((of_int t :: rat) < 0) = (x < 0)"
        using False by (simp add: t_def)
      have first: "(of_int t :: rat) = (if x < 0 then - of_nat (M div 2) else of_nat (M div 2))"
        by (simp add: t_def)
      have "shrinkNumberLoop n (Finite x) accum =
              shrinkNumberLoop n (Finite (of_int t))
                (if numTruthy (Finite (of_int t))
                 then accum @ [numSubtract n (Finite (of_int t))] else accum)"
        using shrinkNumberLoop_step [OF tr, of n accum] by (simp only: step)
      also have "\<dots> =
              shrinkNumberLoop n (Finite (of_int t)) (accum @ [numSubtract n (Finite (of_int t))])"
        using tnz by simp
      also have "\<dots> = Some ((accum @ [numSubtract n (Finite (of_int t))])
                   @ map (\<lambda>h. numSubtract n (Finite (if (of_int t :: rat) < 0 then - of_nat h else of_nat h)))
                       (halvingsNat (nat \<lfloor>\<bar>of_int t :: rat\<bar>\<rfloor>)))"
        using lt dt by (rule less.hyps)
      finally show ?thesis
        using False by (simp add: halvingsNat_step [OF False] M_def [symmetric] m' sg first)
    qed
  qed
qed

lemma shrinkNumber_closed:
  assumes "isDouble n"
  shows "shrinkNumber (Finite n) =
           Some (Finite 0 # (if n < 0 then [Finite (- n)] else [])
                 @ map (\<lambda>h. roundDouble (if n < 0 then n + of_nat h else n - of_nat h))
                     (halvingsNat (nat \<lfloor>\<bar>n\<bar>\<rfloor>)))"
proof (cases "n < 0")
  case True
  then show ?thesis
    using shrinkNumberLoop_closed [OF assms, of "Finite n" "[Finite 0, Finite (- n)]"]
    by (simp add: shrinkNumber_def)
next
  case False
  then show ?thesis
    using shrinkNumberLoop_closed [OF assms, of "Finite n" "[Finite 0]"]
    by (simp add: shrinkNumber_def)
qed

lemma shrinkNumber_exact:
  assumes d: "isDouble n" and le: "\<bar>n\<bar> \<le> 2 ^ 53"
    and h: "h \<in> set (halvingsNat (nat \<lfloor>\<bar>n\<bar>\<rfloor>))"
    and c: "c = (if n < 0 then n + of_nat h else n - of_nat h)"
  shows "roundDouble c = Finite c \<and> ((0 < c \<and> c < n) \<or> (n < c \<and> c < 0))"
proof -
  from halvingsNat_bounds [OF h] have h0: "0 < h" and h2: "2 * h \<le> nat \<lfloor>\<bar>n\<bar>\<rfloor>" by simp_all
  from h2 have "int (2 * h) \<le> \<lfloor>\<bar>n\<bar>\<rfloor>" by linarith
  then have "(of_int (int (2 * h)) :: rat) \<le> \<bar>n\<bar>" by (simp only: le_floor_iff)
  then have r2: "2 * (of_nat h :: rat) \<le> \<bar>n\<bar>" by simp
  from isDouble_sub [OF d le h0 r2 c] have 1: "roundDouble c = Finite c"
    by (simp add: isDouble_def)
  have h1: "(1::rat) \<le> of_nat h" using h0 by simp
  have 2: "(0 < c \<and> c < n) \<or> (n < c \<and> c < 0)"
    using r2 h1 by (auto simp: c abs_if split: if_splits)
  from 1 2 show ?thesis ..
qed

text \<open>\<^verbatim>\<open>NaN\<close> is falsy, so its loop body never runs; an infinite \<open>x\<close> stays infinite.\<close>

lemma shrinkNumber_NaN: "shrinkNumber NotANumber = Some [Finite 0]"
  by (simp add: shrinkNumber_def shrinkNumberLoop_falsy)

lemma shrinkNumberLoop_infinite:
  assumes "shrinkNumberLoop n x accum = Some y"
  shows "x \<noteq> PosInf \<and> x \<noteq> NegInf"
proof -
  let ?P = "\<lambda>(n::number) (x::number) (accum::number list) (y::number list).
              x \<noteq> PosInf \<and> x \<noteq> NegInf"
  have "(case ((n, x), accum) of (p, c) \<Rightarrow> (case p of (a, b) \<Rightarrow> ?P a b) c) y"
  proof (rule shrinkNumberLoop.raw_induct [where P = ?P])
    fix loop :: "number \<Rightarrow> number \<Rightarrow> number list \<Rightarrow> number list option"
    fix m z acc na
    assume IH: "\<And>x accum b y. loop x accum b = Some y \<Longrightarrow> accum \<noteq> PosInf \<and> accum \<noteq> NegInf"
      and body: "(if numTruthy z
                  then loop m (numTrunc (numHalve z))
                         (if numTruthy (numTrunc (numHalve z))
                          then acc @ [numSubtract m (numTrunc (numHalve z))] else acc)
                  else Some acc) = Some na"
    show "z \<noteq> PosInf \<and> z \<noteq> NegInf"
    proof (cases z)
      case PosInf
      from body have "loop m PosInf (acc @ [numSubtract m PosInf]) = Some na"
        by (simp only: PosInf numTruthy.simps numHalve.simps numTrunc.simps if_True)
      from IH [OF this] show ?thesis by simp
    next
      case NegInf
      from body have "loop m NegInf (acc @ [numSubtract m NegInf]) = Some na"
        by (simp only: NegInf numTruthy.simps numHalve.simps numTrunc.simps if_True)
      from IH [OF this] show ?thesis by simp
    qed simp_all
  next
    show "(case ((n, x), accum) of (p, c) \<Rightarrow> (case p of (a, b) \<Rightarrow> shrinkNumberLoop a b) c) = Some y"
      using assms by simp
  qed
  then show ?thesis by simp
qed

lemma shrinkNumber_infinite: "shrinkNumber PosInf = None" "shrinkNumber NegInf = None"
proof -
  have "shrinkNumberLoop n PosInf accum = None" for n accum
    using shrinkNumberLoop_infinite [of n PosInf accum] by (cases "shrinkNumberLoop n PosInf accum") auto
  moreover have "shrinkNumberLoop n NegInf accum = None" for n accum
    using shrinkNumberLoop_infinite [of n NegInf accum] by (cases "shrinkNumberLoop n NegInf accum") auto
  ultimately show "shrinkNumber PosInf = None" "shrinkNumber NegInf = None"
    by (simp_all add: shrinkNumber_def)
qed

lemma shrinkStringLoop_0: "shrinkStringLoop s 0 accum = accum"
  by (subst shrinkStringLoop.simps) simp

lemma shrinkStringLoop_step:
  "x \<noteq> 0 \<Longrightarrow> shrinkStringLoop s x accum =
     shrinkStringLoop s (x div 2)
       (if x div 2 \<noteq> 0 then accum @ [take (length s - x div 2) s] else accum)"
  by (subst shrinkStringLoop.simps) (simp add: Let_def)

lemma shrinkStringLoop_closed:
  "shrinkStringLoop s x accum = accum @ map (\<lambda>h. take (length s - h) s) (halvingsNat x)"
proof (induction s x accum rule: shrinkStringLoop.induct)
  case (1 s x accum)
  show ?case
  proof (cases "x = 0")
    case True
    then show ?thesis by (simp add: halvingsNat_0 shrinkStringLoop_0)
  next
    case False
    note IH = "1.IH" [OF False refl]
    show ?thesis
    proof (cases "x div 2 = 0")
      case True
      then show ?thesis
        using False by (simp add: shrinkStringLoop_step shrinkStringLoop_0 halvingsNat_last)
    next
      case nz: False
      with IH show ?thesis
        using False by (simp add: shrinkStringLoop_step halvingsNat_step)
    qed
  qed
qed

lemma shrinkArrayLoop_0: "shrinkArrayLoop a 0 accum = accum"
  by (subst shrinkArrayLoop.simps) simp

lemma shrinkArrayLoop_step:
  "x \<noteq> 0 \<Longrightarrow> shrinkArrayLoop a x accum =
     shrinkArrayLoop a (x div 2)
       (if x div 2 \<noteq> 0 then accum @ [drop (length a - x div 2) a] else accum)"
  by (subst shrinkArrayLoop.simps) (simp add: Let_def)

lemma shrinkArrayLoop_closed:
  "shrinkArrayLoop a x accum = accum @ map (\<lambda>h. drop (length a - h) a) (halvingsNat x)"
proof (induction a x accum rule: shrinkArrayLoop.induct)
  case (1 a x accum)
  show ?case
  proof (cases "x = 0")
    case True
    then show ?thesis by (simp add: halvingsNat_0 shrinkArrayLoop_0)
  next
    case False
    note IH = "1.IH" [OF False refl]
    show ?thesis
    proof (cases "x div 2 = 0")
      case True
      then show ?thesis
        using False by (simp add: shrinkArrayLoop_step shrinkArrayLoop_0 halvingsNat_last)
    next
      case nz: False
      with IH show ?thesis
        using False by (simp add: shrinkArrayLoop_step halvingsNat_step)
    qed
  qed
qed

lemma shrinkString_closed:
  "shrinkString s = [] # map (\<lambda>h. take (length s - h) s) (halvingsNat (length s))"
  by (simp add: shrinkString_def shrinkStringLoop_closed)

lemma shrinkArray_closed:
  "shrinkArray a = [] # map (\<lambda>h. drop (length a - h) a) (halvingsNat (length a))"
  by (simp add: shrinkArray_def shrinkArrayLoop_closed)

lemma shrinkString_prefix:
  assumes "c \<in> set (shrinkString s)"
  shows "c = [] \<or> strict_prefix c s"
proof -
  from assms consider "c = []"
    | h where "h \<in> set (halvingsNat (length s))" "c = take (length s - h) s"
    by (auto simp: shrinkString_closed)
  then show ?thesis
  proof cases
    case 2
    from halvingsNat_bounds [OF 2(1)] have "0 < h" "2 * h \<le> length s" by auto
    then have "length c < length s" using 2(2) by simp
    then have "c \<noteq> s" by auto
    with 2(2) show ?thesis by (simp add: strict_prefix_def take_is_prefix)
  qed simp
qed

lemma shrinkArray_suffix:
  assumes "c \<in> set (shrinkArray a)"
  shows "c = [] \<or> strict_suffix c a"
proof -
  from assms consider "c = []"
    | h where "h \<in> set (halvingsNat (length a))" "c = drop (length a - h) a"
    by (auto simp: shrinkArray_closed)
  then show ?thesis
  proof cases
    case 2
    from halvingsNat_bounds [OF 2(1)] have "0 < h" "2 * h \<le> length a" by auto
    then have "length c < length a" using 2(2) by simp
    then have "c \<noteq> a" by auto
    with 2(2) show ?thesis by (simp add: strict_suffix_def suffix_drop)
  qed simp
qed

lemma halvingsNat_4: "halvingsNat 4 = [2, 1]"
  by (simp add: halvingsNat_step halvingsNat_last)

lemma halvingsNat_5: "halvingsNat 5 = [2, 1]"
  by (simp add: halvingsNat_step halvingsNat_last)

lemma halvingsNat_length_4: "halvingsNat (Suc (Suc (Suc (Suc 0)))) = [2, 1]"
proof -
  have "Suc (Suc (Suc (Suc 0))) = 4" by simp
  then show ?thesis by (simp only: halvingsNat_4)
qed

lemma shrink_dispatch: "makeMethod (shrinkRegs ext) ThisBilby (v # rest) = shrink v"
  by (cases v)
    (simp_all add: makeMethod_def shrinkRegs_def isBoolean_def isNumber_def isString_def
      isArray_def arg_def shrinkBooleanImpl_def shrinkNumberImpl_def shrinkStringImpl_def
      shrinkArrayImpl_def notImplemented_def)

lemma halvingsNat_2: "halvingsNat 2 = [1]"
  by (simp add: halvingsNat_step halvingsNat_last)

lemma halvingsNat_ends_1: "2 \<le> m \<Longrightarrow> \<exists>hs. halvingsNat m = hs @ [1]"
proof (induction m rule: halvingsNat.induct)
  case (1 x)
  from "1.prems" have nz: "x div 2 \<noteq> 0" by simp
  show ?case
  proof (cases "2 \<le> x div 2")
    case True
    from "1.IH" [OF nz True] obtain hs where "halvingsNat (x div 2) = hs @ [1]" ..
    then have "halvingsNat x = (x div 2 # hs) @ [1]" by (simp add: halvingsNat_step [OF nz])
    then show ?thesis ..
  next
    case False
    with nz have x: "x div 2 = 1" by simp
    then have "halvingsNat (x div 2) = []" by (simp add: halvingsNat_last)
    then have "halvingsNat x = [] @ [1]" using x by (simp add: halvingsNat_step [OF nz])
    then show ?thesis ..
  qed
qed

lemma isDouble_5_2: "isDouble (5 / 2)"
proof (rule isDouble_grid [where m = 5 and g = "- 1"])
  have "ilog2 \<bar>5 / 2 :: rat\<bar> = 1" by (rule ilog2_unique) (simp_all add: power_int_def)
  then show "max (ilog2 \<bar>5 / 2 :: rat\<bar>) (- 1022) - 52 \<le> - 1" by simp
qed (simp_all add: power_int_def)

lemma isDouble_pow2_54: "isDouble (2 ^ 54)"
proof (rule isDouble_grid [where m = 1 and g = 54])
  have "ilog2 \<bar>2 ^ 54 :: rat\<bar> = 54" by (rule ilog2_unique) (simp_all add: power_int_def)
  then show "max (ilog2 \<bar>2 ^ 54 :: rat\<bar>) (- 1022) - 52 \<le> 54" by simp
qed (simp_all add: power_int_def)

lemma roundDouble_pow2_54_pred: "roundDouble (2 ^ 54 - 1) = Finite (2 ^ 54)"
proof -
  have l: "ilog2 \<bar>2 ^ 54 - 1 :: rat\<bar> = 53" by (rule ilog2_unique) (simp_all add: power_int_def)
  have u: "ulp (2 ^ 54 - 1) = 2" unfolding ulp_def l by simp
  have f: "\<lfloor>(2 ^ 54 - 1) / 2 :: rat\<rfloor> = 2 ^ 53 - 1"
    by (rule floor_unique) simp_all
  have rh: "roundHalfEven ((2 ^ 54 - 1) / 2) = 2 ^ 53"
    unfolding roundHalfEven_def Let_def f by simp
  show ?thesis unfolding roundDouble_def Let_def u rh by (simp add: power_int_def)
qed

lemma shrink_pow2_54:
  "\<exists>cs. makeMethod (shrinkRegs ext) ThisBilby [Num (2 ^ 54)] = Inr (Some (Arr (cs @ [Num (2 ^ 54)])))"
proof -
  have "(2::nat) \<le> 2 ^ 54" by simp
  from halvingsNat_ends_1 [OF this] obtain hs where hs: "halvingsNat (2 ^ 54) = hs @ [1]" ..
  have n: "nat \<lfloor>\<bar>2 ^ 54 :: rat\<bar>\<rfloor> = 2 ^ 54"
  proof -
    have "\<lfloor>\<bar>2 ^ 54 :: rat\<bar>\<rfloor> = 2 ^ 54" by (rule floor_unique) simp_all
    then show ?thesis by simp
  qed
  have nn: "\<not> (2 ^ 54 :: rat) < 0" by simp
  have e: "map (\<lambda>h. roundDouble ((2 ^ 54 :: rat) - of_nat h)) (hs @ [1])
           = map (\<lambda>h. roundDouble (2 ^ 54 - of_nat h)) hs @ [Finite (2 ^ 54)]"
    by (simp only: map_append list.map of_nat_1 roundDouble_pow2_54_pred)
  have "shrinkNumber (Finite (2 ^ 54))
          = Some ((Finite 0 # map (\<lambda>h. roundDouble (2 ^ 54 - of_nat h)) hs) @ [Finite (2 ^ 54)])"
    by (simp only: shrinkNumber_closed [OF isDouble_pow2_54] n hs e nn if_False append_Nil append_Cons)
  then have "makeMethod (shrinkRegs ext) ThisBilby [Num (2 ^ 54)]
          = Inr (Some (Arr (map Number (Finite 0 # map (\<lambda>h. roundDouble (2 ^ 54 - of_nat h)) hs)
                            @ [Num (2 ^ 54)])))"
    by (simp only: shrink_dispatch shrink.simps option.map map_append list.map)
  then show ?thesis ..
qed

text \<open>
  C6 (amended): for a finite number \<open>n\<close> the candidates of \<^verbatim>\<open>shrink\<close> are \<open>0\<close>, then
  \<open>- n\<close> when \<open>n\<close> is negative, then the double nearest to \<open>n - x\<close> for the successive
  nonzero halvings \<open>x\<close> of \<open>n\<close> (rounded toward zero).  When \<open>\<bar>n\<bar> \<le> 2 ^ 53\<close> these
  differences are exact and lie strictly between \<open>0\<close> and \<open>n\<close>.  For a string the
  candidates are the empty string, then the string without its last \<open>x\<close> characters
  for the successive nonzero halvings \<open>x\<close> of its length: proper prefixes.  For an
  array they are the empty array, then the last \<open>x\<close> elements for the same \<open>x\<close>: proper
  suffixes, the leading part being dropped.  For \<^verbatim>\<open>NaN\<close> the only candidate is \<open>0\<close>;
  for an infinite number the call does not return.  (For \<open>0\<close>, the empty string and
  the empty array the only candidate is the input itself.  Booleans are left out of
  this statement.)
\<close>

theorem shrink_candidates:
  "(isDouble n \<longrightarrow>
      makeMethod (shrinkRegs ext) ThisBilby [Num n]
        = Inr (Some (Arr (map Number
            (Finite 0 # (if n < 0 then [Finite (- n)] else [])
             @ map (\<lambda>h. roundDouble (if n < 0 then n + of_nat h else n - of_nat h))
                 (halvingsNat (nat \<lfloor>\<bar>n\<bar>\<rfloor>)))))))
   \<and> (isDouble n \<and> \<bar>n\<bar> \<le> 2 ^ 53 \<longrightarrow>
        (\<forall>h \<in> set (halvingsNat (nat \<lfloor>\<bar>n\<bar>\<rfloor>)).
           (n < 0 \<longrightarrow> roundDouble (n + of_nat h) = Finite (n + of_nat h)
                        \<and> n < n + of_nat h \<and> n + of_nat h < 0)
         \<and> (\<not> n < 0 \<longrightarrow> roundDouble (n - of_nat h) = Finite (n - of_nat h)
                        \<and> 0 < n - of_nat h \<and> n - of_nat h < n)))
   \<and> makeMethod (shrinkRegs ext) ThisBilby [Number NotANumber] = Inr (Some (Arr [Num 0]))
   \<and> makeMethod (shrinkRegs ext) ThisBilby [Number PosInf] = Inr None
   \<and> makeMethod (shrinkRegs ext) ThisBilby [Number NegInf] = Inr None
   \<and> makeMethod (shrinkRegs ext) ThisBilby [Str s] = Inr (Some (Arr (map Str (shrinkString s))))
   \<and> shrinkString s = [] # map (\<lambda>h. take (length s - h) s) (halvingsNat (length s))
   \<and> (\<forall>c \<in> set (shrinkString s). c = [] \<or> strict_prefix c s)
   \<and> makeMethod (shrinkRegs ext) ThisBilby [Arr a] = Inr (Some (Arr (map Arr (shrinkArray a))))
   \<and> shrinkArray a = [] # map (\<lambda>h. drop (length a - h) a) (halvingsNat (length a))
   \<and> (\<forall>c \<in> set (shrinkArray a). c = [] \<or> strict_suffix c a)
   \<and> (\<forall>h \<in> set (halvingsNat m). 0 < h \<and> 2 * h \<le> m)"
proof -
  have 1: "makeMethod (shrinkRegs ext) ThisBilby [Num n]
        = Inr (Some (Arr (map Number
            (Finite 0 # (if n < 0 then [Finite (- n)] else [])
             @ map (\<lambda>h. roundDouble (if n < 0 then n + of_nat h else n - of_nat h))
                 (halvingsNat (nat \<lfloor>\<bar>n\<bar>\<rfloor>))))))" if "isDouble n"
    by (simp only: shrink_dispatch shrink.simps shrinkNumber_closed [OF that] option.map)
  have 2: "(n < 0 \<longrightarrow> roundDouble (n + of_nat h) = Finite (n + of_nat h)
                        \<and> n < n + of_nat h \<and> n + of_nat h < 0)
         \<and> (\<not> n < 0 \<longrightarrow> roundDouble (n - of_nat h) = Finite (n - of_nat h)
                        \<and> 0 < n - of_nat h \<and> n - of_nat h < n)"
    if "isDouble n" "\<bar>n\<bar> \<le> 2 ^ 53" "h \<in> set (halvingsNat (nat \<lfloor>\<bar>n\<bar>\<rfloor>))" for h
    using shrinkNumber_exact [OF that refl] by (auto split: if_splits)
  have 3: "makeMethod (shrinkRegs ext) ThisBilby [Str s] = Inr (Some (Arr (map Str (shrinkString s))))"
    by (simp add: shrink_dispatch)
  have 4: "makeMethod (shrinkRegs ext) ThisBilby [Arr a] = Inr (Some (Arr (map Arr (shrinkArray a))))"
    by (simp add: shrink_dispatch)
  have n1: "makeMethod (shrinkRegs ext) ThisBilby [Number NotANumber] = Inr (Some (Arr [Num 0]))"
    by (simp add: shrink_dispatch shrinkNumber_NaN)
  have n2: "makeMethod (shrinkRegs ext) ThisBilby [Number PosInf] = Inr None"
    by (simp add: shrink_dispatch shrinkNumber_infinite)
  have n3: "makeMethod (shrinkRegs ext) ThisBilby [Number NegInf] = Inr None"
    by (simp add: shrink_dispatch shrinkNumber_infinite)
  note 5 = shrinkString_closed [of s]
  note 6 = shrinkArray_closed [of a]
  have 7: "\<forall>c \<in> set (shrinkString s). c = [] \<or> strict_prefix c s"
    by (intro ballI shrinkString_prefix)
  have 8: "\<forall>c \<in> set (shrinkArray a). c = [] \<or> strict_suffix c a"
    by (intro ballI shrinkArray_suffix)
  have 9: "\<forall>h \<in> set (halvingsNat m). 0 < h \<and> 2 * h \<le> m"
    by (intro ballI halvingsNat_bounds)
  from 1 2 have 12: "(isDouble n \<longrightarrow>
      makeMethod (shrinkRegs ext) ThisBilby [Num n]
        = Inr (Some (Arr (map Number
            (Finite 0 # (if n < 0 then [Finite (- n)] else [])
             @ map (\<lambda>h. roundDouble (if n < 0 then n + of_nat h else n - of_nat h))
                 (halvingsNat (nat \<lfloor>\<bar>n\<bar>\<rfloor>)))))))
   \<and> (isDouble n \<and> \<bar>n\<bar> \<le> 2 ^ 53 \<longrightarrow>
        (\<forall>h \<in> set (halvingsNat (nat \<lfloor>\<bar>n\<bar>\<rfloor>)).
           (n < 0 \<longrightarrow> roundDouble (n + of_nat h) = Finite (n + of_nat h)
                        \<and> n < n + of_nat h \<and> n + of_nat h < 0)
         \<and> (\<not> n < 0 \<longrightarrow> roundDouble (n - of_nat h) = Finite (n - of_nat h)
                        \<and> 0 < n - of_nat h \<and> n - of_nat h < n)))"
    by blast
  from 12 n1 n2 n3 3 5 7 4 6 8 9 show ?thesis by (intro conjI) (erule conjunct1 conjunct2 | assumption)+
qed

theorem shrink_candidates_witness:
  "makeMethod (shrinkRegs (\<lambda>name this args. Inr Undef)) ThisBilby [Num (- 5)]
     = Inr (Some (Arr [Num 0, Num 5, Num (- 3), Num (- 4)]))
   \<and> makeMethod (shrinkRegs (\<lambda>name this args. Inr Undef)) ThisBilby [Num (5 / 2)]
     = Inr (Some (Arr [Num 0, Num (3 / 2)]))
   \<and> makeMethod (shrinkRegs (\<lambda>name this args. Inr Undef)) ThisBilby [Str ''abcd'']
     = Inr (Some (Arr [Str [], Str ''ab'', Str ''abc'']))
   \<and> makeMethod (shrinkRegs (\<lambda>name this args. Inr Undef)) ThisBilby [Arr [Num 1, Num 2, Num 3, Num 4]]
     = Inr (Some (Arr [Arr [], Arr [Num 3, Num 4], Arr [Num 4]]))"
proof -
  note all = shrink_candidates [where ext = "\<lambda>name this args. Inr Undef" and n = "- 5"
      and s = "''abcd''" and a = "[Num 1, Num 2, Num 3, Num 4]" and m = 0]
  note frac = shrink_candidates [where ext = "\<lambda>name this args. Inr Undef" and n = "5 / 2"
      and s = "[]" and a = "[]" and m = 0]
  have d5: "isDouble (- 5)" using isDouble_of_int [of "- 5"] by simp
  have h5: "halvingsNat (nat \<lfloor>\<bar>- 5 :: rat\<bar>\<rfloor>) = [2, 1]" by (simp add: halvingsNat_5)
  have fl: "\<lfloor>5 / 2 :: rat\<rfloor> = 2" by (rule floor_unique) simp_all
  have h2: "halvingsNat (nat \<lfloor>5 / 2 :: rat\<rfloor>) = [1]" by (simp add: fl halvingsNat_2)
  have r5: "roundDouble (- 5 + 2) = Finite (- 5 + 2)" "roundDouble (- 5 + 1) = Finite (- 5 + 1)"
    using all [THEN conjunct2, THEN conjunct1] d5 by (simp_all add: h5 halvingsNat_5)
  have r2: "roundDouble (5 / 2 - 1) = Finite (5 / 2 - 1)"
    using frac [THEN conjunct2, THEN conjunct1] isDouble_5_2 by (simp add: h2)
  have n: "makeMethod (shrinkRegs (\<lambda>name this args. Inr Undef)) ThisBilby [Num (- 5)]
     = Inr (Some (Arr [Num 0, Num 5, Num (- 3), Num (- 4)]))"
    using all [THEN conjunct1] d5 r5 by (simp add: h5 halvingsNat_5)
  have q: "makeMethod (shrinkRegs (\<lambda>name this args. Inr Undef)) ThisBilby [Num (5 / 2)]
     = Inr (Some (Arr [Num 0, Num (3 / 2)]))"
    using frac [THEN conjunct1] isDouble_5_2 r2 by (simp add: h2)
  have s: "shrinkString ''abcd'' = [[], ''ab'', ''abc'']"
    using all [THEN conjunct2, THEN conjunct2, THEN conjunct2, THEN conjunct2, THEN conjunct2, THEN conjunct2, THEN conjunct1]
    by (simp add: halvingsNat_length_4)
  have a: "shrinkArray [Num 1, Num 2, Num 3, Num 4] = [[], [Num 3, Num 4], [Num 4]]"
    using all [THEN conjunct2, THEN conjunct2, THEN conjunct2, THEN conjunct2, THEN conjunct2,
               THEN conjunct2, THEN conjunct2, THEN conjunct2, THEN conjunct2, THEN conjunct1]
    by (simp add: halvingsNat_length_4)
  have s': "makeMethod (shrinkRegs (\<lambda>name this args. Inr Undef)) ThisBilby [Str ''abcd'']
     = Inr (Some (Arr [Str [], Str ''ab'', Str ''abc'']))"
    using all [THEN conjunct2, THEN conjunct2, THEN conjunct2, THEN conjunct2, THEN conjunct2,
               THEN conjunct1] by (simp add: s)
  have a': "makeMethod (shrinkRegs (\<lambda>name this args. Inr Undef)) ThisBilby [Arr [Num 1, Num 2, Num 3, Num 4]]
     = Inr (Some (Arr [Arr [], Arr [Num 3, Num 4], Arr [Num 4]]))"
    using all [THEN conjunct2, THEN conjunct2, THEN conjunct2, THEN conjunct2, THEN conjunct2,
               THEN conjunct2, THEN conjunct2, THEN conjunct2, THEN conjunct1] by (simp add: a)
  show ?thesis by (intro conjI) (rule n q s' a')+
qed

text \<open>
  C6, as stated, fails: for a boolean the registration returns a function, not an
  array of candidates (and that function, applied to \<^verbatim>\<open>true\<close>, reads the undeclared
  name \<^verbatim>\<open>False\<close>); for the array \<^verbatim>\<open>[1, 2, 3, 4]\<close> the candidates keep the trailing
  elements and drop the leading ones; for \<open>0\<close> the candidate is \<open>0\<close> itself, which is
  not strictly smaller; and for \<open>2 ^ 54\<close> the last candidate, the double nearest to
  \<open>2 ^ 54 - 1\<close>, is \<open>2 ^ 54\<close> itself.
\<close>

theorem shrink_counterexample:
  "makeMethod (shrinkRegs (\<lambda>name this args. Inr Undef)) ThisBilby [Bool True] = Inr (Some ShrinkBooleanFn)
   \<and> makeMethod (shrinkRegs (\<lambda>name this args. Inr Undef)) ThisBilby [Bool True] \<noteq> Inr (Some (Arr [Bool False]))
   \<and> makeMethod (shrinkRegs (\<lambda>name this args. Inr Undef)) ThisBilby [Bool False] = Inr (Some ShrinkBooleanFn)
   \<and> makeMethod (shrinkRegs (\<lambda>name this args. Inr Undef)) ThisBilby [Bool False] \<noteq> Inr (Some (Arr []))
   \<and> callShrinkBooleanFn [Bool True] = Inl (ReferenceError ''False is not defined'')
   \<and> makeMethod (shrinkRegs (\<lambda>name this args. Inr Undef)) ThisBilby [Arr [Num 1, Num 2, Num 3, Num 4]]
     = Inr (Some (Arr [Arr [], Arr [Num 3, Num 4], Arr [Num 4]]))
   \<and> makeMethod (shrinkRegs (\<lambda>name this args. Inr Undef)) ThisBilby [Num 0] = Inr (Some (Arr [Num 0]))
   \<and> (\<exists>cs. makeMethod (shrinkRegs (\<lambda>name this args. Inr Undef)) ThisBilby [Num (2 ^ 54)]
             = Inr (Some (Arr (cs @ [Num (2 ^ 54)]))))"
proof -
  have z: "shrinkNumber (Finite 0) = Some [Finite 0]"
    using shrinkNumber_closed [OF isDouble_0] by (simp add: halvingsNat_0)
  have 1: "makeMethod (shrinkRegs (\<lambda>name this args. Inr Undef)) ThisBilby [Num 0] = Inr (Some (Arr [Num 0]))"
    by (simp add: shrink_dispatch z)
  have 2: "makeMethod (shrinkRegs (\<lambda>name this args. Inr Undef)) ThisBilby [Arr [Num 1, Num 2, Num 3, Num 4]]
     = Inr (Some (Arr [Arr [], Arr [Num 3, Num 4], Arr [Num 4]]))"
    by (simp add: shrink_dispatch shrinkArray_closed halvingsNat_length_4)
  have 3: "callShrinkBooleanFn [Bool True] = Inl (ReferenceError ''False is not defined'')"
    by (simp add: callShrinkBooleanFn_def arg_def)
  have 4: "makeMethod (shrinkRegs (\<lambda>name this args. Inr Undef)) ThisBilby [Bool b] = Inr (Some ShrinkBooleanFn)" for b
    by (simp add: shrink_dispatch)
  have 5: "makeMethod (shrinkRegs (\<lambda>name this args. Inr Undef)) ThisBilby [Bool True] \<noteq> Inr (Some (Arr [Bool False]))"
    by (simp add: shrink_dispatch)
  have 6: "makeMethod (shrinkRegs (\<lambda>name this args. Inr Undef)) ThisBilby [Bool False] \<noteq> Inr (Some (Arr []))"
    by (simp add: shrink_dispatch)
  show ?thesis by (intro conjI) (rule 1 2 3 4 5 6 shrink_pow2_54)+
qed

section \<open>Properties of Validation and Option\<close>

text \<open>
  C8: \<^verbatim>\<open>ap\<close> of the environment, applied to \<^verbatim>\<open>failure([a])\<close> and \<^verbatim>\<open>failure([b])\<close>,
  returns \<^verbatim>\<open>failure([a, b])\<close>: the Validation registration is the one selected, and
  the two error arrays are combined by the array registration of \<^verbatim>\<open>append\<close>, the first
  argument's errors first.
\<close>

theorem validation_ap_accumulates:
  "makeMethod (apRegs ext) ThisBilby [Failure (Arr [a]), Failure (Arr [b])]
     = Inr (Failure (Arr [a, b]))
   \<and> makeMethod (apRegs ext) ThisBilby [Failure (Arr xs), Failure (Arr ys)]
     = Inr (Failure (Arr (xs @ ys)))"
  by (simp add: makeMethod_def apRegs_def isFunction_def isArray_def isOption_def
      isEither_def isValidation_def arg_def validationApImpl_def failure_ap_def
      appendRegs_def arrayAppendImpl_def)

text \<open>
  C10: \<^verbatim>\<open>none\<close> is one value, and \<^verbatim>\<open>map\<close>, \<^verbatim>\<open>flatMap\<close>, \<^verbatim>\<open>ap\<close> and \<^verbatim>\<open>append\<close>
  applied to it, as methods of \<^verbatim>\<open>none\<close> and through the environment's multimethods,
  return \<^verbatim>\<open>none\<close> itself, whatever the other argument is and whatever the
  implementations of the other registrations do.
\<close>

theorem none_is_identity:
  "none_map OptNone = Inr OptNone
   \<and> none_flatMap OptNone = Inr OptNone
   \<and> none_ap OptNone = Inr OptNone
   \<and> none_append OptNone = Inr OptNone
   \<and> makeMethod (mapRegs ext) ThisBilby [OptNone, g] = Inr OptNone
   \<and> makeMethod (flatMapRegs ext) ThisBilby [OptNone, g] = Inr OptNone
   \<and> makeMethod (apRegs ext) ThisBilby [OptNone, x] = Inr OptNone
   \<and> makeMethod (appendRegs ext) ThisBilby [OptNone, x] = Inr OptNone"
  by (simp add: none_map_def none_flatMap_def none_ap_def none_append_def makeMethod_def
      mapRegs_def flatMapRegs_def apRegs_def appendRegs_def isFunction_def isArray_def
      isOption_def isNumberOrString_def isNumber_def isString_def arg_def
      optionMapImpl_def optionFlatMapImpl_def optionApImpl_def optionAppendImpl_def)

end
